theory Spec2Isabelle
  imports Main "HOL-Library.Word"
begin

unbundle bit_operations_syntax

section \<open>Python strings and bytes\<close>

text \<open>
  The module \<^verbatim>\<open>0x02-redis_basic/web.py\<close> moves text between two Python types:
  \<^verbatim>\<open>str\<close>, a sequence of code points, and \<^verbatim>\<open>bytes\<close>. A \<^verbatim>\<open>str\<close> is modelled
  as the list of its code points and \<^verbatim>\<open>bytes\<close> as a list of 8-bit words. Python's
  code points range over 0 .. 0x10FFFF and include the surrogates 0xD800 .. 0xDFFF;
  the numbers from 0x110000 on are not values of \<^verbatim>\<open>str\<close>, and the encoder below
  refuses them, so that no statement depends on them.
\<close>

type_synonym byte = "8 word"
type_synonym bytes = "byte list"
type_synonym codepoint = nat
type_synonym str = "codepoint list"

definition py :: "string \<Rightarrow> str" where
  \<comment> \<open>a string literal of the source, as its code points\<close>
  "py s = map of_char s"

text \<open>
  What the module can raise. \<open>Raised e\<close> is whatever the wrapped function raised,
  with its own value \<open>e\<close>; \<open>ResponseError\<close> is the error reply of the Redis server.
\<close>

datatype 'e error = UnicodeEncodeError | UnicodeDecodeError | ResponseError | Raised 'e

subsection \<open>\<^verbatim>\<open>str.encode()\<close>: UTF-8, strict\<close>

fun encode_cp :: "codepoint \<Rightarrow> bytes option" where
  "encode_cp c =
     (if c < 0x80 then Some [of_nat c]
      else if c < 0x800 then Some [of_nat (0xC0 + c div 64), of_nat (0x80 + c mod 64)]
      else if 0xD800 \<le> c \<and> c < 0xE000 then None
      else if c < 0x10000 then
        Some [of_nat (0xE0 + c div 4096), of_nat (0x80 + c div 64 mod 64),
              of_nat (0x80 + c mod 64)]
      else if c < 0x110000 then
        Some [of_nat (0xF0 + c div 262144), of_nat (0x80 + c div 4096 mod 64),
              of_nat (0x80 + c div 64 mod 64), of_nat (0x80 + c mod 64)]
      else None)"

fun utf8_encode :: "str \<Rightarrow> bytes option" where
  \<comment> \<open>\<open>None\<close>: Python raises UnicodeEncodeError (a surrogate is not allowed)\<close>
  "utf8_encode [] = Some []"
| "utf8_encode (c # cs) =
     (case encode_cp c of
        None \<Rightarrow> None
      | Some bs \<Rightarrow> (case utf8_encode cs of None \<Rightarrow> None | Some rest \<Rightarrow> Some (bs @ rest)))"

subsection \<open>\<^verbatim>\<open>bytes.decode("utf-8")\<close>, strict\<close>

definition is_cont :: "byte \<Rightarrow> bool" where
  \<comment> \<open>a continuation byte, 10xxxxxx\<close>
  "is_cont b = (0x80 \<le> unat b \<and> unat b < 0xC0)"

definition cont_bits :: "byte \<Rightarrow> nat" where
  "cont_bits b = unat b - 0x80"

fun utf8_decode :: "bytes \<Rightarrow> str option" where
  \<comment> \<open>\<open>None\<close>: Python raises UnicodeDecodeError (truncated or overlong sequence,
      stray continuation byte, surrogate, or a value above 0x10FFFF)\<close>
  "utf8_decode [] = Some []"
| "utf8_decode (b0 # bs) =
     (if unat b0 < 0x80 then map_option ((#) (unat b0)) (utf8_decode bs)
      else if 0xC2 \<le> unat b0 \<and> unat b0 < 0xE0 then
        (case bs of
           b1 # r \<Rightarrow>
             if is_cont b1
             then map_option ((#) ((unat b0 - 0xC0) * 64 + cont_bits b1)) (utf8_decode r)
             else None
         | _ \<Rightarrow> None)
      else if 0xE0 \<le> unat b0 \<and> unat b0 < 0xF0 then
        (case bs of
           b1 # b2 # r \<Rightarrow>
             (let c = (unat b0 - 0xE0) * 4096 + cont_bits b1 * 64 + cont_bits b2
              in if is_cont b1 \<and> is_cont b2 \<and> 0x800 \<le> c \<and> \<not> (0xD800 \<le> c \<and> c < 0xE000)
                 then map_option ((#) c) (utf8_decode r)
                 else None)
         | _ \<Rightarrow> None)
      else if 0xF0 \<le> unat b0 \<and> unat b0 < 0xF5 then
        (case bs of
           b1 # b2 # b3 # r \<Rightarrow>
             (let c = (unat b0 - 0xF0) * 262144 + cont_bits b1 * 4096 + cont_bits b2 * 64
                      + cont_bits b3
              in if is_cont b1 \<and> is_cont b2 \<and> is_cont b3 \<and> 0x10000 \<le> c \<and> c < 0x110000
                 then map_option ((#) c) (utf8_decode r)
                 else None)
         | _ \<Rightarrow> None)
      else None)"

section \<open>\<^verbatim>\<open>hashlib.md5\<close>\<close>

text \<open>
  The digest of the standard library, as RFC 1321 defines it: the message is padded to
  a multiple of 64 bytes, cut into blocks of sixteen little-endian 32-bit words, and
  each block goes through 64 steps on four 32-bit registers.
\<close>

type_synonym u32 = "32 word"

definition md5_K :: "u32 list" where
  "md5_K =
    [0xd76aa478, 0xe8c7b756, 0x242070db, 0xc1bdceee,
     0xf57c0faf, 0x4787c62a, 0xa8304613, 0xfd469501,
     0x698098d8, 0x8b44f7af, 0xffff5bb1, 0x895cd7be,
     0x6b901122, 0xfd987193, 0xa679438e, 0x49b40821,
     0xf61e2562, 0xc040b340, 0x265e5a51, 0xe9b6c7aa,
     0xd62f105d, 0x02441453, 0xd8a1e681, 0xe7d3fbc8,
     0x21e1cde6, 0xc33707d6, 0xf4d50d87, 0x455a14ed,
     0xa9e3e905, 0xfcefa3f8, 0x676f02d9, 0x8d2a4c8a,
     0xfffa3942, 0x8771f681, 0x6d9d6122, 0xfde5380c,
     0xa4beea44, 0x4bdecfa9, 0xf6bb4b60, 0xbebfbc70,
     0x289b7ec6, 0xeaa127fa, 0xd4ef3085, 0x04881d05,
     0xd9d4d039, 0xe6db99e5, 0x1fa27cf8, 0xc4ac5665,
     0xf4292244, 0x432aff97, 0xab9423a7, 0xfc93a039,
     0x655b59c3, 0x8f0ccc92, 0xffeff47d, 0x85845dd1,
     0x6fa87e4f, 0xfe2ce6e0, 0xa3014314, 0x4e0811a1,
     0xf7537e82, 0xbd3af235, 0x2ad7d2bb, 0xeb86d391]"

definition md5_s :: "nat list" where
  "md5_s =
    [7, 12, 17, 22, 7, 12, 17, 22, 7, 12, 17, 22, 7, 12, 17, 22,
     5, 9, 14, 20, 5, 9, 14, 20, 5, 9, 14, 20, 5, 9, 14, 20,
     4, 11, 16, 23, 4, 11, 16, 23, 4, 11, 16, 23, 4, 11, 16, 23,
     6, 10, 15, 21, 6, 10, 15, 21, 6, 10, 15, 21, 6, 10, 15, 21]"

definition le_bytes32 :: "u32 \<Rightarrow> bytes" where
  \<comment> \<open>the four bytes of a register, least significant first\<close>
  "le_bytes32 w = [ucast w, ucast (drop_bit 8 w), ucast (drop_bit 16 w), ucast (drop_bit 24 w)]"

definition le_bytes64 :: "64 word \<Rightarrow> bytes" where
  "le_bytes64 w = map (\<lambda>i. ucast (drop_bit (8 * i) w)) [0..<8]"

definition md5_pad :: "bytes \<Rightarrow> bytes" where
  \<comment> \<open>a 1 bit, zeros up to 56 modulo 64 bytes, then the length in bits modulo \<open>2 ^ 64\<close>\<close>
  "md5_pad m =
     m @ [0x80] @ replicate ((119 - length m mod 64) mod 64) 0
       @ le_bytes64 (8 * of_nat (length m))"

fun blocks :: "bytes \<Rightarrow> bytes list" where
  "blocks bs = (if bs = [] then [] else take 64 bs # blocks (drop 64 bs))"

declare blocks.simps [simp del]

fun le_words :: "bytes \<Rightarrow> u32 list" where
  "le_words (b0 # b1 # b2 # b3 # r) =
     (ucast b0 OR push_bit 8 (ucast b1) OR push_bit 16 (ucast b2) OR push_bit 24 (ucast b3))
     # le_words r"
| "le_words _ = []"

type_synonym md5_regs = "u32 \<times> u32 \<times> u32 \<times> u32"

definition rotate_left :: "u32 \<Rightarrow> nat \<Rightarrow> u32" where
  \<comment> \<open>\<^verbatim>\<open>ROTATE_LEFT(x, n) = (x << n) | (x >> (32 - n))\<close>\<close>
  "rotate_left x n = push_bit n x OR drop_bit (32 - n) x"

definition md5_step :: "u32 list \<Rightarrow> nat \<Rightarrow> md5_regs \<Rightarrow> md5_regs" where
  "md5_step M i = (\<lambda>(A, B, C, D).
     let (F, g) =
          (if i < 16 then ((B AND C) OR (NOT B AND D), i)
           else if i < 32 then ((D AND B) OR (NOT D AND C), (5 * i + 1) mod 16)
           else if i < 48 then (B XOR C XOR D, (3 * i + 5) mod 16)
           else (C XOR (B OR NOT D), (7 * i) mod 16));
         F' = F + A + md5_K ! i + M ! g
     in (D, B + rotate_left F' (md5_s ! i), B, C))"

definition md5_block :: "md5_regs \<Rightarrow> bytes \<Rightarrow> md5_regs" where
  "md5_block = (\<lambda>(a0, b0, c0, d0) blk.
     let (A, B, C, D) = fold (md5_step (le_words blk)) [0..<64] (a0, b0, c0, d0)
     in (a0 + A, b0 + B, c0 + C, d0 + D))"

definition md5_init :: md5_regs where
  "md5_init = (0x67452301, 0xefcdab89, 0x98badcfe, 0x10325476)"

definition md5 :: "bytes \<Rightarrow> bytes" where
  \<comment> \<open>\<^verbatim>\<open>hashlib.md5(data).digest()\<close>\<close>
  "md5 m =
     (let (a, b, c, d) = foldl md5_block md5_init (blocks (md5_pad m))
      in le_bytes32 a @ le_bytes32 b @ le_bytes32 c @ le_bytes32 d)"

definition hex_digit :: "nat \<Rightarrow> codepoint" where
  \<comment> \<open>\<^verbatim>\<open>0-9\<close> are 48 .. 57, \<^verbatim>\<open>a-f\<close> are 97 .. 102\<close>
  "hex_digit n = (if n < 10 then 48 + n else 87 + n)"

definition hexdigest :: "bytes \<Rightarrow> str" where
  "hexdigest d = concat (map (\<lambda>b. [hex_digit (unat b div 16), hex_digit (unat b mod 16)]) d)"

section \<open>The module\<close>

definition CACHE_EXPIRATION :: nat where
  "CACHE_EXPIRATION = 10"

definition sanitize_url :: "str \<Rightarrow> 'e error + str" where
  \<comment> \<open>\<^verbatim>\<open>return hashlib.md5(url.encode()).hexdigest()\<close>\<close>
  "sanitize_url url =
     (case utf8_encode url of
        None \<Rightarrow> Inl UnicodeEncodeError
      | Some data \<Rightarrow> Inr (hexdigest (md5 data)))"

section \<open>The Redis server behind \<^verbatim>\<open>redis_client\<close>\<close>

text \<open>
  The module keeps all its state in the Redis server that the global client talks to.
  The server is modelled as a map from keys to string values, each with the seconds it
  has left to live (\<open>None\<close>: no expiry). The model is of a server that is reachable
  and has room left, whose keys hold strings (the only type this module writes), and
  whose configured limit on the size of a key or a value is not reached. The three
  commands the module sends are modelled with the replies and the errors the server
  documents for them, as functions of what is stored.
\<close>

record entry =
  val :: bytes
  ttl :: "nat option"

type_synonym store = "bytes \<rightharpoonup> entry"

subsection \<open>Integers as the server stores them\<close>

function dec :: "nat \<Rightarrow> bytes" where
  \<comment> \<open>the decimal digits of a number, most significant first\<close>
  "dec n = (if n < 10 then [of_nat (48 + n)] else dec (n div 10) @ [of_nat (48 + n mod 10)])"
  by pat_completeness auto
termination
  by (relation "measure id") auto

declare dec.simps [simp del]

definition ll2string :: "int \<Rightarrow> bytes" where
  "ll2string v = (if v < 0 then 45 # dec (nat (- v)) else dec (nat v))"

definition is_digit :: "byte \<Rightarrow> bool" where
  "is_digit b = (48 \<le> unat b \<and> unat b \<le> 57)"

fun dec_value :: "nat \<Rightarrow> bytes \<Rightarrow> nat" where
  "dec_value acc [] = acc"
| "dec_value acc (b # bs) = dec_value (10 * acc + (unat b - 48)) bs"

definition string2ll :: "bytes \<Rightarrow> int option" where
  \<comment> \<open>the server's reading of a value as a 64-bit signed integer: \<^verbatim>\<open>0\<close>, or an optional
      \<^verbatim>\<open>-\<close>, a digit \<^verbatim>\<open>1-9\<close> and further digits, within range; nothing else\<close>
  "string2ll s =
     (if s = [48] then Some 0
      else
        let negative = (case s of [] \<Rightarrow> False | b # _ \<Rightarrow> b = 45);
            p = (if negative then tl s else s)
        in case p of
             [] \<Rightarrow> None
           | d # r \<Rightarrow>
               if 49 \<le> unat d \<and> unat d \<le> 57 \<and> list_all is_digit r then
                 (let v = dec_value 0 p
                  in if negative then (if 2 ^ 63 < v then None else Some (- int v))
                     else (if 2 ^ 63 - 1 < v then None else Some (int v)))
               else None)"

subsection \<open>The client's methods\<close>

text \<open>
  The client encodes every \<^verbatim>\<open>str\<close> argument as UTF-8 (strict) before it sends the
  command, so each method can raise UnicodeEncodeError before the server sees anything.
\<close>

definition redis_incr :: "store \<Rightarrow> str \<Rightarrow> 'e error + (int \<times> store)" where
  \<comment> \<open>\<^verbatim>\<open>INCR\<close>: a missing key counts as 0; a value that is no integer, or the largest one,
      is an error; the time to live is kept\<close>
  "redis_incr db name =
     (case utf8_encode name of
        None \<Rightarrow> Inl UnicodeEncodeError
      | Some k \<Rightarrow>
          (case db k of
             None \<Rightarrow> Inr (1, db(k \<mapsto> \<lparr>val = ll2string 1, ttl = None\<rparr>))
           | Some e \<Rightarrow>
               (case string2ll (val e) of
                  None \<Rightarrow> Inl ResponseError
                | Some v \<Rightarrow>
                    if v = 2 ^ 63 - 1 then Inl ResponseError
                    else Inr (v + 1, db(k \<mapsto> e\<lparr>val := ll2string (v + 1)\<rparr>)))))"

definition redis_get :: "store \<Rightarrow> str \<Rightarrow> 'e error + bytes option" where
  \<comment> \<open>\<^verbatim>\<open>GET\<close>: the value, or \<^verbatim>\<open>None\<close> for a missing key\<close>
  "redis_get db name =
     (case utf8_encode name of
        None \<Rightarrow> Inl UnicodeEncodeError
      | Some k \<Rightarrow> Inr (map_option val (db k)))"

definition redis_setex :: "store \<Rightarrow> str \<Rightarrow> nat \<Rightarrow> str \<Rightarrow> 'e error + store" where
  \<comment> \<open>\<^verbatim>\<open>SETEX\<close>: writes the value and its time to live over whatever the key held;
      a time of 0 is an error\<close>
  "redis_setex db name time v =
     (case utf8_encode name of
        None \<Rightarrow> Inl UnicodeEncodeError
      | Some k \<Rightarrow>
          (case utf8_encode v of
             None \<Rightarrow> Inl UnicodeEncodeError
           | Some data \<Rightarrow>
               if time = 0 then Inl ResponseError
               else Inr (db(k \<mapsto> \<lparr>val = data, ttl = Some time\<rparr>))))"

section \<open>\<^verbatim>\<open>track_get_page\<close>\<close>

text \<open>
  The decorated function \<open>fn\<close> is any callable: it is modelled with a state of its own
  (so that it may answer differently from call to call), returning a page or raising.
  It does not touch the Redis server. The field \<open>fn_calls\<close> is a log of the arguments
  \<open>fn\<close> has been invoked with, oldest first; the module does not read it.
\<close>

type_synonym ('f, 'e) page_fn = "str \<Rightarrow> 'f \<Rightarrow> ('e + str) \<times> 'f"

record 'f world =
  redis_client :: store
  fn_state :: 'f
  fn_calls :: "str list"

definition call_fn :: "('f, 'e) page_fn \<Rightarrow> str \<Rightarrow> 'f world \<Rightarrow> ('e + str) \<times> 'f world" where
  "call_fn fn url w =
     (let (r, f') = fn url (fn_state w)
      in (r, w\<lparr>fn_state := f', fn_calls := fn_calls w @ [url]\<rparr>))"

definition fetch_and_cache ::
  "('f, 'e) page_fn \<Rightarrow> str \<Rightarrow> str \<Rightarrow> 'f world \<Rightarrow> ('e error + str) \<times> 'f world" where
  \<comment> \<open>the last three lines of \<^verbatim>\<open>wrapper\<close>:
      \<^verbatim>\<open>response = fn(url); redis_client.setex(cache_key, CACHE_EXPIRATION, response); return response\<close>\<close>
  "fetch_and_cache fn url cache_key w =
     (case call_fn fn url w of
        (Inl e, w') \<Rightarrow> (Inl (Raised e), w')
      | (Inr response, w') \<Rightarrow>
          (case redis_setex (redis_client w') cache_key CACHE_EXPIRATION response of
             Inl e \<Rightarrow> (Inl e, w')
           | Inr db \<Rightarrow> (Inr response, w'\<lparr>redis_client := db\<rparr>)))"

definition track_get_page ::
  "('f, 'e) page_fn \<Rightarrow> str \<Rightarrow> 'f world \<Rightarrow> ('e error + str) \<times> 'f world" where
  \<comment> \<open>\<^verbatim>\<open>track_get_page(fn)(url)\<close>, that is \<^verbatim>\<open>wrapper(url)\<close>. The test \<^verbatim>\<open>if cached_page:\<close> is
      Python's truth value: \<^verbatim>\<open>None\<close> and the empty \<^verbatim>\<open>bytes\<close> are both false.\<close>
  "track_get_page fn url w =
     (case redis_incr (redis_client w) (py ''count:'' @ url) of
        Inl e \<Rightarrow> (Inl e, w)
      | Inr (n, db) \<Rightarrow>
          (let w1 = w\<lparr>redis_client := db\<rparr>
           in case sanitize_url url of
                Inl e \<Rightarrow> (Inl e, w1)
              | Inr cache_key \<Rightarrow>
                  (case redis_get (redis_client w1) cache_key of
                     Inl e \<Rightarrow> (Inl e, w1)
                   | Inr cached_page \<Rightarrow>
                       (case cached_page of
                          None \<Rightarrow> fetch_and_cache fn url cache_key w1
                        | Some page \<Rightarrow>
                            if page = [] then fetch_and_cache fn url cache_key w1
                            else (case utf8_decode page of
                                    None \<Rightarrow> (Inl UnicodeDecodeError, w1)
                                  | Some text \<Rightarrow> (Inr text, w1))))))"

definition get_page ::
  "('f, 'e) page_fn \<Rightarrow> str \<Rightarrow> 'f world \<Rightarrow> ('e error + str) \<times> 'f world" where
  \<comment> \<open>\<^verbatim>\<open>@track_get_page def get_page(url): return requests.get(url).text\<close>; the HTTP
      client is outside the module, and \<open>requests_get\<close> stands for it\<close>
  "get_page requests_get = track_get_page requests_get"

section \<open>Notions used in the statements\<close>

definition encodable :: "str \<Rightarrow> bool" where
  \<comment> \<open>every code point has a UTF-8 encoding: none is a surrogate\<close>
  "encodable s = list_all (\<lambda>c. c < 0xD800 \<or> (0xE000 \<le> c \<and> c < 0x110000)) s"

definition is_hex :: "codepoint \<Rightarrow> bool" where
  \<comment> \<open>one of \<^verbatim>\<open>0123456789abcdef\<close>\<close>
  "is_hex c = ((48 \<le> c \<and> c \<le> 57) \<or> (97 \<le> c \<and> c \<le> 102))"

definition count_key :: "str \<Rightarrow> bytes option" where
  \<comment> \<open>the key \<^verbatim>\<open>INCR\<close> is sent with for a URL, if the client can encode it\<close>
  "count_key url = utf8_encode (py ''count:'' @ url)"

definition cache_key :: "str \<Rightarrow> bytes option" where
  \<comment> \<open>the key \<^verbatim>\<open>GET\<close> and \<^verbatim>\<open>SETEX\<close> are sent with for a URL\<close>
  "cache_key url =
     (case (sanitize_url url :: unit error + str) of
        Inl _ \<Rightarrow> None
      | Inr key \<Rightarrow> utf8_encode key)"

definition counter :: "store \<Rightarrow> str \<Rightarrow> int option" where
  \<comment> \<open>the count of a URL as the server reads it: 0 for a missing key, \<open>None\<close> when the
      key cannot be sent or holds no integer\<close>
  "counter db url =
     (case count_key url of
        None \<Rightarrow> None
      | Some k \<Rightarrow> (case db k of None \<Rightarrow> Some 0 | Some e \<Rightarrow> string2ll (val e)))"

definition cached :: "store \<Rightarrow> str \<Rightarrow> entry option" where
  \<comment> \<open>the entry under the cache key of a URL\<close>
  "cached db url = (case cache_key url of None \<Rightarrow> None | Some k \<Rightarrow> db k)"

definition after_incr :: "store \<Rightarrow> str \<Rightarrow> store" where
  \<comment> \<open>the store once the \<^verbatim>\<open>INCR\<close> of a call has been answered\<close>
  "after_incr db url =
     (case (redis_incr db (py ''count:'' @ url) :: unit error + int \<times> store) of
        Inl _ \<Rightarrow> db
      | Inr (_, db') \<Rightarrow> db')"

definition miss :: "store \<Rightarrow> str \<Rightarrow> bool" where
  \<comment> \<open>what \<^verbatim>\<open>if cached_page:\<close> takes for a miss: no entry, or an entry with the empty value\<close>
  "miss db url = (case cached db url of None \<Rightarrow> True | Some e \<Rightarrow> val e = [])"

text \<open>For the concrete scenarios: a fetcher that answers with the pages it holds, in order,
  and raises once it has none left; a URL, and the bytes of its cache key.\<close>

definition stub :: "(str list, string) page_fn" where
  "stub url pages = (case pages of [] \<Rightarrow> (Inl ''ConnectionError'', []) | p # rest \<Rightarrow> (Inr p, rest))"

definition example_url :: str where
  "example_url = py ''http://example.com''"

definition example_key :: bytes where
  "example_key = map of_nat (py ''a9b9f04336ce0181a08e774e01113b31'')"

definition fresh :: "str list \<Rightarrow> str list world" where
  \<comment> \<open>an empty store and a fetcher that has not been called\<close>
  "fresh pages = \<lparr>redis_client = Map.empty, fn_state = pages, fn_calls = []\<rparr>"

definition hit_world :: "str list world" where
  \<comment> \<open>a store that holds a page for the URL, some seconds after it was cached\<close>
  "hit_world =
     \<lparr>redis_client = [map of_nat (py ''count:http://example.com'') \<mapsto> \<lparr>val = map of_nat (py ''1''), ttl = None\<rparr>,
                       example_key \<mapsto> \<lparr>val = map of_nat (py ''hello''), ttl = Some 7\<rparr>],
      fn_state = [py ''world''], fn_calls = [example_url]\<rparr>"

definition full_counter :: "str list world" where
  \<comment> \<open>nothing cached for the URL, and its counter at the largest value \<^verbatim>\<open>INCR\<close> can reach\<close>
  "full_counter =
     \<lparr>redis_client = [map of_nat (py ''count:http://example.com'')
                        \<mapsto> \<lparr>val = map of_nat (py ''9223372036854775807''), ttl = None\<rparr>],
      fn_state = [py ''hello''], fn_calls = []\<rparr>"

definition last_count :: "str list world" where
  \<comment> \<open>nothing cached for the URL, and its counter one increment away from the largest value\<close>
  "last_count =
     \<lparr>redis_client = [map of_nat (py ''count:http://example.com'')
                        \<mapsto> \<lparr>val = map of_nat (py ''9223372036854775806''), ttl = None\<rparr>],
      fn_state = [py ''hello'', py ''world''], fn_calls = []\<rparr>"

section \<open>UTF-8: what can be encoded, and the round trip\<close>

lemma encode_cp_None_iff: "encode_cp c = None \<longleftrightarrow> \<not> (c < 0xD800 \<or> (0xE000 \<le> c \<and> c < 0x110000))"
  by auto

lemma encode_cp_Some_iff:
  "(\<exists>bs. encode_cp c = Some bs) \<longleftrightarrow> (c < 0xD800 \<or> (0xE000 \<le> c \<and> c < 0x110000))"
  using encode_cp_None_iff [of c] by (cases "encode_cp c") (simp_all del: encode_cp.simps)

lemma utf8_encode_Some_iff: "(\<exists>bs. utf8_encode s = Some bs) \<longleftrightarrow> encodable s"
proof (induction s)
  case Nil
  show ?case by (simp add: encodable_def)
next
  case (Cons c cs)
  have "(\<exists>bs. utf8_encode (c # cs) = Some bs) \<longleftrightarrow>
        (\<exists>b. encode_cp c = Some b) \<and> (\<exists>r. utf8_encode cs = Some r)"
    by (cases "encode_cp c"; cases "utf8_encode cs") (simp_all del: encode_cp.simps)
  then show ?case
    using Cons.IH encode_cp_Some_iff [of c] by (simp add: encodable_def del: encode_cp.simps)
qed

lemma unat_byte: "n < 256 \<Longrightarrow> unat (of_nat n :: byte) = n"
  by (simp add: unat_of_nat)

lemma lin3: "(c::nat) = 64 * q + r \<Longrightarrow> q = 64 * p + s \<Longrightarrow> p * 4096 + s * 64 + r = c"
  by simp
lemma lin4: "(c::nat) = 64 * q + r \<Longrightarrow> q = 64 * p + s \<Longrightarrow> p = 64 * h + m \<Longrightarrow> h * 262144 + m * 4096 + s * 64 + r = c"
  by simp
lemma split3: "(c::nat) div 4096 * 4096 + c div 64 mod 64 * 64 + c mod 64 = c"
proof -
  have a: "c div 4096 = c div 64 div 64" by (simp add: div_mult2_eq)
  show ?thesis unfolding a by (rule lin3) simp_all
qed
lemma split4: "(c::nat) div 262144 * 262144 + c div 4096 mod 64 * 4096 + c div 64 mod 64 * 64 + c mod 64 = c"
proof -
  have a: "c div 4096 = c div 64 div 64" by (simp add: div_mult2_eq)
  have b: "c div 262144 = c div 64 div 64 div 64" by (simp add: div_mult2_eq)
  show ?thesis unfolding a b by (rule lin4) simp_all
qed

lemma decode1:
  assumes "unat b0 < 0x80"
  shows "utf8_decode (b0 # rest) = map_option ((#) (unat b0)) (utf8_decode rest)"
  using assms by simp

lemma decode2:
  assumes "unat b0 = 0xC0 + h" "2 \<le> h" "h < 32" "unat b1 = 0x80 + l" "l < 64"
  shows "utf8_decode (b0 # b1 # rest) = map_option ((#) (h * 64 + l)) (utf8_decode rest)"
  using assms by (simp add: is_cont_def cont_bits_def)

lemma decode3:
  assumes "unat b0 = 0xE0 + h" "h < 16" "unat b1 = 0x80 + m" "m < 64" "unat b2 = 0x80 + l" "l < 64"
    and "0x800 \<le> h * 4096 + m * 64 + l"
    and "\<not> (0xD800 \<le> h * 4096 + m * 64 + l \<and> h * 4096 + m * 64 + l < 0xE000)"
  shows "utf8_decode (b0 # b1 # b2 # rest) = map_option ((#) (h * 4096 + m * 64 + l)) (utf8_decode rest)"
  using assms by (simp add: is_cont_def cont_bits_def Let_def)

lemma decode4:
  assumes "unat b0 = 0xF0 + h" "h < 5" "unat b1 = 0x80 + m" "m < 64" "unat b2 = 0x80 + l" "l < 64"
    and "unat b3 = 0x80 + k" "k < 64"
    and "0x10000 \<le> h * 262144 + m * 4096 + l * 64 + k" "h * 262144 + m * 4096 + l * 64 + k < 0x110000"
  shows "utf8_decode (b0 # b1 # b2 # b3 # rest) =
         map_option ((#) (h * 262144 + m * 4096 + l * 64 + k)) (utf8_decode rest)"
  using assms by (simp add: is_cont_def cont_bits_def Let_def)

lemma decode_encode_cp:
  assumes "encode_cp c = Some bs"
  shows "utf8_decode (bs @ rest) = map_option ((#) c) (utf8_decode rest)"
proof -
  consider (a) "c < 0x80" | (b) "0x80 \<le> c" "c < 0x800"
    | (c) "0x800 \<le> c" "c < 0x10000" "\<not> (0xD800 \<le> c \<and> c < 0xE000)"
    | (d) "0x10000 \<le> c" "c < 0x110000"
    using assms by (auto split: if_splits)
  then show ?thesis
  proof cases
    case a
    define b0 :: byte where "b0 = of_nat c"
    have "bs = [b0]" using assms a by (simp add: b0_def)
    moreover have "unat b0 = c" unfolding b0_def using a by (intro unat_byte) simp
    ultimately show ?thesis using a decode1 [of b0 rest] by simp
  next
    case b
    define b0 :: byte where "b0 = of_nat (0xC0 + c div 64)"
    define b1 :: byte where "b1 = of_nat (0x80 + c mod 64)"
    have bs: "bs = [b0, b1]" using assms b by (simp add: b0_def b1_def)
    have "c div 64 < 32" "2 \<le> c div 64" using b by simp_all
    moreover from this have "unat b0 = 0xC0 + c div 64" unfolding b0_def by (intro unat_byte) simp
    moreover have "unat b1 = 0x80 + c mod 64" unfolding b1_def by (intro unat_byte) simp
    moreover have "c div 64 * 64 + c mod 64 = c" by simp
    ultimately show ?thesis using decode2 [of b0 "c div 64" b1 "c mod 64" rest] bs by simp
  next
    case c
    define b0 :: byte where "b0 = of_nat (0xE0 + c div 4096)"
    define b1 :: byte where "b1 = of_nat (0x80 + c div 64 mod 64)"
    define b2 :: byte where "b2 = of_nat (0x80 + c mod 64)"
    have bs: "bs = [b0, b1, b2]" using assms c by (auto simp: b0_def b1_def b2_def)
    have h: "c div 4096 < 16" using c by simp
    have u0: "unat b0 = 0xE0 + c div 4096" unfolding b0_def using h by (intro unat_byte) simp
    have u1: "unat b1 = 0x80 + c div 64 mod 64" unfolding b1_def by (intro unat_byte) simp
    have u2: "unat b2 = 0x80 + c mod 64" unfolding b2_def by (intro unat_byte) simp
    have eq: "c div 4096 * 4096 + c div 64 mod 64 * 64 + c mod 64 = c" by (rule split3)
    show ?thesis
      using decode3 [of b0 "c div 4096" b1 "c div 64 mod 64" b2 "c mod 64" rest] h u0 u1 u2 c bs
      unfolding eq by simp
  next
    case d
    define b0 :: byte where "b0 = of_nat (0xF0 + c div 262144)"
    define b1 :: byte where "b1 = of_nat (0x80 + c div 4096 mod 64)"
    define b2 :: byte where "b2 = of_nat (0x80 + c div 64 mod 64)"
    define b3 :: byte where "b3 = of_nat (0x80 + c mod 64)"
    have bs: "bs = [b0, b1, b2, b3]" using assms d by (auto simp: b0_def b1_def b2_def b3_def)
    have h: "c div 262144 < 5" using d by simp
    have u0: "unat b0 = 0xF0 + c div 262144" unfolding b0_def using h by (intro unat_byte) simp
    have u1: "unat b1 = 0x80 + c div 4096 mod 64" unfolding b1_def by (intro unat_byte) simp
    have u2: "unat b2 = 0x80 + c div 64 mod 64" unfolding b2_def by (intro unat_byte) simp
    have u3: "unat b3 = 0x80 + c mod 64" unfolding b3_def by (intro unat_byte) simp
    have eq: "c div 262144 * 262144 + c div 4096 mod 64 * 4096 + c div 64 mod 64 * 64 + c mod 64 = c"
      by (rule split4)
    show ?thesis
      using decode4 [of b0 "c div 262144" b1 "c div 4096 mod 64" b2 "c div 64 mod 64" b3 "c mod 64" rest]
        h u0 u1 u2 u3 d bs
      unfolding eq by simp
  qed
qed

lemma utf8_roundtrip: "utf8_encode s = Some bs \<Longrightarrow> utf8_decode bs = Some s"
proof (induction s arbitrary: bs)
  case Nil then show ?case by simp
next
  case (Cons c cs)
  then show ?case
    by (auto split: option.splits simp: decode_encode_cp simp del: encode_cp.simps utf8_decode.simps)
qed

lemma utf8_encode_inj: "utf8_encode a = Some k \<Longrightarrow> utf8_encode b = Some k \<Longrightarrow> a = b"
  using utf8_roundtrip [of a k] utf8_roundtrip [of b k] by simp

lemma utf8_encode_ascii: "list_all (\<lambda>c. c < 0x80) s \<Longrightarrow> utf8_encode s = Some (map of_nat s)"
  by (induction s) simp_all

lemma utf8_encode_append:
  "utf8_encode (a @ b) =
     (case utf8_encode a of None \<Rightarrow> None
      | Some x \<Rightarrow> (case utf8_encode b of None \<Rightarrow> None | Some y \<Rightarrow> Some (x @ y)))"
  by (induction a) (simp_all split: option.splits del: encode_cp.simps)

lemma encode_cp_nonempty: "encode_cp c = Some bs \<Longrightarrow> bs \<noteq> []"
  by (auto split: if_splits)

lemma utf8_encode_Nil_iff: "utf8_encode s = Some [] \<longleftrightarrow> s = []"
  by (cases s) (auto split: option.splits dest: encode_cp_nonempty simp del: encode_cp.simps)

lemma py_count: "py ''count:'' = [99, 111, 117, 110, 116, 58]"
  by (simp add: py_def)

lemma utf8_encode_count:
  "utf8_encode (py ''count:'' @ u) = map_option ((@) [99, 111, 117, 110, 116, 58]) (utf8_encode u)"
  by (simp add: py_count split: option.splits)

section \<open>The digest is 32 hexadecimal digits\<close>

lemma length_md5: "length (md5 m) = 16"
proof -
  obtain a b c d where "foldl md5_block md5_init (blocks (md5_pad m)) = (a, b, c, d)"
    by (cases "foldl md5_block md5_init (blocks (md5_pad m))") auto
  then show ?thesis by (simp add: md5_def le_bytes32_def)
qed

lemma length_hexdigest: "length (hexdigest d) = 2 * length d"
  by (induction d) (simp_all add: hexdigest_def)

lemma is_hex_hex_digit: "n < 16 \<Longrightarrow> is_hex (hex_digit n)"
  by (auto simp: is_hex_def hex_digit_def)

lemma unat_byte_less: "unat (b :: byte) < 256"
  using unsigned_less [of b] by simp

lemma hexdigest_is_hex: "list_all is_hex (hexdigest d)"
proof (induction d)
  case Nil
  show ?case by (simp add: hexdigest_def)
next
  case (Cons b d)
  have "unat b div 16 < 16" using unat_byte_less [of b] by simp
  then show ?case using Cons by (simp add: hexdigest_def is_hex_hex_digit)
qed

lemma is_hex_ascii: "list_all is_hex s \<Longrightarrow> list_all (\<lambda>c. c < 0x80) s"
  by (induction s) (auto simp: is_hex_def)

lemma utf8_encode_hexdigest: "utf8_encode (hexdigest d) = Some (map of_nat (hexdigest d))"
  by (intro utf8_encode_ascii is_hex_ascii hexdigest_is_hex)

lemma count_not_hex: "\<not> list_all is_hex (py ''count:'' @ u)"
  by (simp add: py_count is_hex_def)

lemma count_neq_hexdigest: "py ''count:'' @ u \<noteq> hexdigest d"
proof
  assume "py ''count:'' @ u = hexdigest d"
  then have "list_all is_hex (py ''count:'' @ u)" by (simp only: hexdigest_is_hex)
  then show False using count_not_hex [of u] by simp
qed

section \<open>Integers as the server stores them: the round trip\<close>

lemma dec_nonempty: "dec n \<noteq> []"
  by (subst dec.simps) simp

lemma unat_digit: "n < 10 \<Longrightarrow> unat (of_nat (48 + n) :: byte) = 48 + n"
  by (intro unat_byte) simp

lemma dec_digits: "list_all is_digit (dec n)"
proof (induction n rule: dec.induct)
  case (1 n)
  show ?case
  proof (cases "n < 10")
    case True
    then show ?thesis using unat_digit [of n] by (subst dec.simps) (simp add: is_digit_def)
  next
    case False
    have "n mod 10 < 10" by simp
    then have "is_digit (of_nat (48 + n mod 10))" using unat_digit [of "n mod 10"] by (simp add: is_digit_def)
    then show ?thesis using False 1 by (subst dec.simps) simp
  qed
qed

lemma dec_value_append: "dec_value acc (xs @ ys) = dec_value (dec_value acc xs) ys"
  by (induction xs arbitrary: acc) simp_all

lemma dec_value_dec: "dec_value 0 (dec n) = n"
proof (induction n rule: dec.induct)
  case (1 n)
  show ?case
  proof (cases "n < 10")
    case True
    then show ?thesis using unat_digit [of n] by (subst dec.simps) simp
  next
    case False
    have "n mod 10 < 10" by simp
    then have "unat (of_nat (48 + n mod 10) :: byte) - 48 = n mod 10" using unat_digit [of "n mod 10"] by simp
    then show ?thesis using False 1 by (subst dec.simps) (simp add: dec_value_append)
  qed
qed

lemma hd_dec: "0 < n \<Longrightarrow> 49 \<le> unat (hd (dec n)) \<and> unat (hd (dec n)) \<le> 57"
proof (induction n rule: dec.induct)
  case (1 n)
  show ?case
  proof (cases "n < 10")
    case True
    then show ?thesis using unat_digit [of n] 1(2) by (subst (1 2) dec.simps) simp
  next
    case False
    then have "0 < n div 10" by simp
    then show ?thesis using False 1(1) dec_nonempty [of "n div 10"] by (subst (1 2) dec.simps) simp
  qed
qed

lemma dec_eq_zero: "0 < n \<Longrightarrow> dec n \<noteq> [48]"
  using hd_dec [of n] by auto

lemma string2ll_pos: "0 < n \<Longrightarrow> n < 2 ^ 63 \<Longrightarrow> string2ll (dec n) = Some (int n)"
proof -
  assume n: "0 < n" "n < 2 ^ 63"
  obtain d r where dr: "dec n = d # r" using dec_nonempty [of n] by (cases "dec n") auto
  have d: "49 \<le> unat d" "unat d \<le> 57" using hd_dec [of n] n dr by simp_all
  then have "d \<noteq> 45" by auto
  moreover have "list_all is_digit r" using dec_digits [of n] dr by simp
  moreover have "dec_value 0 (d # r) = n" using dec_value_dec [of n] dr by simp
  moreover have "d # r \<noteq> [48]" using dec_eq_zero [of n] n dr by simp
  ultimately show ?thesis using d n dr by (simp add: string2ll_def Let_def del: dec_value.simps)
qed

lemma string2ll_neg: "0 < n \<Longrightarrow> n \<le> 2 ^ 63 \<Longrightarrow> string2ll (45 # dec n) = Some (- int n)"
proof -
  assume n: "0 < n" "n \<le> 2 ^ 63"
  obtain d r where dr: "dec n = d # r" using dec_nonempty [of n] by (cases "dec n") auto
  have d: "49 \<le> unat d" "unat d \<le> 57" using hd_dec [of n] n dr by simp_all
  moreover have "list_all is_digit r" using dec_digits [of n] dr by simp
  moreover have "dec_value 0 (d # r) = n" using dec_value_dec [of n] dr by simp
  ultimately show ?thesis using d n dr by (simp add: string2ll_def Let_def del: dec_value.simps)
qed

lemma string2ll_ll2string:
  assumes "- (2 ^ 63) \<le> v" "v < 2 ^ 63"
  shows "string2ll (ll2string v) = Some v"
proof -
  consider (z) "v = 0" | (p) "0 < v" | (n) "v < 0" by linarith
  then show ?thesis
  proof cases
    case z
    then show ?thesis by (simp add: ll2string_def string2ll_def dec.simps)
  next
    case p
    then have "0 < nat v" "nat v < 2 ^ 63" using assms by simp_all
    then show ?thesis using string2ll_pos [of "nat v"] p by (simp add: ll2string_def)
  next
    case n
    then have "0 < nat (- v)" "nat (- v) \<le> 2 ^ 63" using assms by simp_all
    then show ?thesis using string2ll_neg [of "nat (- v)"] n by (simp add: ll2string_def)
  qed
qed

section \<open>The digest on known inputs\<close>

text \<open>
  The embedding of MD5 computes the digests the standard library computes: the test
  vector \<^verbatim>\<open>abc\<close> of RFC 1321, and the URL of the concrete scenarios. A message
  shorter than 56 bytes is padded to one block; the block is evaluated in stages: its
  sixteen words, the 64 steps, the final addition and the hexadecimal digits.
\<close>

lemma upt_0_numeral: "[0..<numeral n] = 0 # [Suc 0..<numeral n]"
  by (rule upt_conv_Cons) simp

lemma upt_Suc_0_numeral:
  "[Suc 0..<numeral n] = (if Suc 0 < numeral n then Suc 0 # [2..<numeral n] else [])"
  using upt_rec [of "Suc 0" "numeral n"] by (simp only: numeral_2_eq_2)

lemma replicate_numeral: "replicate (numeral n) x = x # replicate (pred_numeral n) x"
  by (simp add: numeral_eq_Suc)

lemma blocks_one: "length bs = 64 \<Longrightarrow> blocks bs = [bs]"
  by (subst blocks.simps, subst blocks.simps) auto

lemma pad_zeros: "n < 56 \<Longrightarrow> (119 - n) mod 64 = 55 - (n :: nat)"
proof -
  assume a: "n < 56"
  then have e: "119 - n = 55 - n + 64" by arith
  have "(119 - n) mod 64 = (55 - n + 64) mod 64" by (simp only: e)
  also have "\<dots> = (55 - n) mod 64" by (simp only: mod_add_self2)
  also have "\<dots> = 55 - n" by simp
  finally show ?thesis .
qed

lemma length_md5_pad: "length m < 56 \<Longrightarrow> length (md5_pad m) = 64"
  using pad_zeros [of "length m"] by (simp add: md5_pad_def le_bytes64_def)

lemma md5_short:
  "length m < 56 \<Longrightarrow>
   md5 m = (let (a, b, c, d) = md5_block md5_init (md5_pad m)
            in le_bytes32 a @ le_bytes32 b @ le_bytes32 c @ le_bytes32 d)"
  by (simp add: md5_def blocks_one length_md5_pad)

lemma md5_block_init:
  "md5_block md5_init blk =
     (let (A, B, C, D) = fold (md5_step (le_words blk)) [0..<64] md5_init
      in (0x67452301 + A, 0xefcdab89 + B, 0x98badcfe + C, 0x10325476 + D))"
  by (simp add: md5_block_def md5_init_def)

lemma abc_words:
  "le_words (md5_pad
     [97, 98, 99]) =
     [0x80636261, 0, 0, 0, 0, 0, 0, 0, 0, 0, 0, 0, 0, 0, 0x00000018, 0]"
  by (simp add: md5_pad_def le_bytes64_def upt_0_numeral upt_Suc_0_numeral replicate_numeral)

lemma abc_steps:
  "fold (md5_step
     [0x80636261, 0, 0, 0, 0, 0, 0, 0, 0, 0, 0, 0, 0, 0, 0x00000018, 0]) [0..<64] md5_init =
     (0x310ade8f, 0xc08226b3, 0xe484b9d8, 0x624d8cb2)"
  by (simp add: md5_step_def md5_K_def md5_s_def md5_init_def rotate_left_def
        upt_0_numeral upt_Suc_0_numeral)

lemma abc_block:
  "md5_block md5_init (md5_pad
     [97, 98, 99]) =
     (0x98500190, 0xb04fd23c, 0x7d3f96d6, 0x727fe128)"
  by (simp add: md5_block_init abc_words abc_steps)

lemma abc_md5:
  "hexdigest (md5
     [97, 98, 99]) =
     py ''900150983cd24fb0d6963f7d28e17f72''"
  by (simp add: md5_short abc_block le_bytes32_def hexdigest_def hex_digit_def py_def)

lemma md5_abc: "hexdigest (md5 (map of_nat (py ''abc''))) = py ''900150983cd24fb0d6963f7d28e17f72''"
proof -
  have "map of_nat (py ''abc'') = ([97, 98, 99] :: bytes)" by (simp add: py_def)
  then show ?thesis by (simp only: abc_md5)
qed

lemma url_words:
  "le_words (md5_pad
     [104, 116, 116, 112, 58, 47, 47, 101, 120, 97, 109, 112, 108, 101, 46, 99, 111,
      109]) =
     [0x70747468, 0x652f2f3a, 0x706d6178, 0x632e656c, 0x00806d6f, 0, 0, 0, 0, 0, 0, 0,
      0, 0, 0x00000090, 0]"
  by (simp add: md5_pad_def le_bytes64_def upt_0_numeral upt_Suc_0_numeral replicate_numeral)

lemma url_steps:
  "fold (md5_step
     [0x70747468, 0x652f2f3a, 0x706d6178, 0x632e656c, 0x00806d6f, 0, 0, 0, 0, 0, 0, 0,
      0, 0, 0x00000090, 0]) [0..<64] md5_init =
     (0xdcab96a8, 0x913422ad, 0xb5bcb1a2, 0x2108bc8b)"
  by (simp add: md5_step_def md5_K_def md5_s_def md5_init_def rotate_left_def
        upt_0_numeral upt_Suc_0_numeral)

lemma url_block:
  "md5_block md5_init (md5_pad
     [104, 116, 116, 112, 58, 47, 47, 101, 120, 97, 109, 112, 108, 101, 46, 99, 111,
      109]) =
     (0x43f0b9a9, 0x8101ce36, 0x4e778ea0, 0x313b1101)"
  by (simp add: md5_block_init url_words url_steps)

lemma url_md5:
  "hexdigest (md5
     [104, 116, 116, 112, 58, 47, 47, 101, 120, 97, 109, 112, 108, 101, 46, 99, 111,
      109]) =
     py ''a9b9f04336ce0181a08e774e01113b31''"
  by (simp add: md5_short url_block le_bytes32_def hexdigest_def hex_digit_def py_def)

lemma url_bytes:
  "(map of_nat example_url :: bytes) =
     [104, 116, 116, 112, 58, 47, 47, 101, 120, 97, 109, 112, 108, 101, 46, 99, 111,
      109]"
  by (simp add: example_url_def py_def)

lemma example_digest: "hexdigest (md5 (map of_nat example_url)) = py ''a9b9f04336ce0181a08e774e01113b31''"
  by (simp only: url_bytes url_md5)

lemma example_key_eq: "map of_nat (hexdigest (md5 (map of_nat example_url))) = example_key"
  by (simp only: example_digest example_key_def)

section \<open>\<^verbatim>\<open>sanitize_url\<close>\<close>

lemma encodable_iff: "encodable url \<longleftrightarrow> (\<exists>data. utf8_encode url = Some data)"
  by (simp add: utf8_encode_Some_iff)

lemma sanitize_url_encodable:
  "utf8_encode url = Some data \<Longrightarrow> sanitize_url url = Inr (hexdigest (md5 data))"
  by (simp add: sanitize_url_def)

lemma sanitize_url_raises: "\<not> encodable url \<Longrightarrow> sanitize_url url = Inl UnicodeEncodeError"
  using utf8_encode_Some_iff [of url] by (cases "utf8_encode url") (simp_all add: sanitize_url_def)

lemma length_key: "length (hexdigest (md5 data)) = 32"
  by (simp add: length_hexdigest length_md5)

lemma cache_key_eq: "cache_key v = map_option (\<lambda>data. map of_nat (hexdigest (md5 data))) (utf8_encode v)"
  by (cases "utf8_encode v") (simp_all add: cache_key_def sanitize_url_def utf8_encode_hexdigest)

lemma keys_disjoint: "count_key u = Some k \<Longrightarrow> cache_key v \<noteq> Some k"
proof
  assume c: "count_key u = Some k" and "cache_key v = Some k"
  then obtain data where "k = map of_nat (hexdigest (md5 data))"
    by (auto simp: cache_key_eq)
  then have "utf8_encode (hexdigest (md5 data)) = Some k" by (simp add: utf8_encode_hexdigest)
  then have "py ''count:'' @ u = hexdigest (md5 data)"
    using c utf8_encode_inj [of "py ''count:'' @ u" k] by (simp add: count_key_def)
  then show False using count_neq_hexdigest by blast
qed

text \<open>
  Claim C9, as amended. For every string that has a UTF-8 encoding (no code point is a
  surrogate), \<^verbatim>\<open>sanitize_url\<close> returns the MD5 hex digest of that encoding: exactly 32
  characters, each a lowercase hexadecimal digit. (On a string with a surrogate the
  encoding step raises UnicodeEncodeError, which is why the claim cannot hold for every
  string.)
\<close>

theorem C9_sanitize_url_md5_hex:
  assumes "encodable url"
  shows "\<exists>data. utf8_encode url = Some data
           \<and> sanitize_url url = Inr (hexdigest (md5 data))
           \<and> length (hexdigest (md5 data)) = 32
           \<and> list_all is_hex (hexdigest (md5 data))"
proof -
  obtain data where "utf8_encode url = Some data"
    using assms utf8_encode_Some_iff [of url] by auto
  then show ?thesis
    using sanitize_url_encodable [of url data] length_key [of data] hexdigest_is_hex [of "md5 data"]
    by auto
qed

theorem C9_sanitize_url_md5_hex_witness:
  "encodable example_url
   \<and> (\<exists>data. utf8_encode example_url = Some data
           \<and> (sanitize_url example_url :: unit error + str) = Inr (hexdigest (md5 data))
           \<and> length (hexdigest (md5 data)) = 32
           \<and> list_all is_hex (hexdigest (md5 data)))
   \<and> (sanitize_url example_url :: unit error + str) = Inr (py ''a9b9f04336ce0181a08e774e01113b31'')"
proof -
  have e: "encodable example_url" by (simp add: encodable_def example_url_def py_def)
  have "utf8_encode example_url = Some (map of_nat example_url)"
    by (rule utf8_encode_ascii) (simp add: example_url_def py_def)
  then have "(sanitize_url example_url :: unit error + str) = Inr (py ''a9b9f04336ce0181a08e774e01113b31'')"
    by (simp add: sanitize_url_def example_digest)
  then show ?thesis using e C9_sanitize_url_md5_hex [OF e, where 'a = unit] by simp
qed

text \<open>The claim as stated fails on the one-character string made of the surrogate U+D800.\<close>

theorem C9_surrogate_counterexample:
  "(sanitize_url [0xD800] :: unit error + str) = Inl UnicodeEncodeError"
  by (simp add: sanitize_url_def)

text \<open>
  Claim C7, as amended. On the strings that have a UTF-8 encoding, \<^verbatim>\<open>sanitize_url\<close>
  always returns a key; the key is a function of the string alone (the same string
  gives the same key), it is made of hexadecimal digits, and any two keys have the same
  length.
\<close>

theorem C7_sanitize_url_fixed_length:
  assumes "encodable u" and "encodable v"
  shows "\<exists>ku kv. (sanitize_url u :: 'e error + str) = Inr ku
           \<and> (sanitize_url v :: 'e error + str) = Inr kv
           \<and> length ku = length kv \<and> list_all is_hex ku \<and> (u = v \<longrightarrow> ku = kv)"
proof -
  obtain du dv where d: "utf8_encode u = Some du" "utf8_encode v = Some dv"
    using assms utf8_encode_Some_iff by blast
  have "(sanitize_url u :: 'e error + str) = Inr (hexdigest (md5 du))"
    and "(sanitize_url v :: 'e error + str) = Inr (hexdigest (md5 dv))"
    using d by (simp_all add: sanitize_url_def)
  moreover have "length (hexdigest (md5 du)) = length (hexdigest (md5 dv))"
    by (simp add: length_key)
  moreover have "list_all is_hex (hexdigest (md5 du))"
    by (rule hexdigest_is_hex)
  moreover have "u = v \<longrightarrow> hexdigest (md5 du) = hexdigest (md5 dv)"
    using d by auto
  ultimately show ?thesis by blast
qed

theorem C7_sanitize_url_fixed_length_witness:
  "encodable (py ''a'') \<and> encodable (py ''http://example.com/a/long/path'')
   \<and> (\<exists>ku kv. (sanitize_url (py ''a'') :: unit error + str) = Inr ku
          \<and> (sanitize_url (py ''http://example.com/a/long/path'') :: unit error + str) = Inr kv
          \<and> length ku = length kv \<and> list_all is_hex ku
          \<and> (py ''a'' = py ''http://example.com/a/long/path'' \<longrightarrow> ku = kv))"
proof -
  have a: "encodable (py ''a'')" by (simp add: encodable_def py_def)
  have b: "encodable (py ''http://example.com/a/long/path'')" by (simp add: encodable_def py_def)
  show ?thesis using a b C7_sanitize_url_fixed_length [OF a b] by simp
qed

text \<open>
  The function is not total on \<^verbatim>\<open>str\<close>: \<^verbatim>\<open>http://\<close> followed by the surrogate U+DC80 makes it raise.
\<close>

theorem C7_not_total_counterexample:
  "(sanitize_url (py ''http://'' @ [0xDC80]) :: unit error + str) = Inl UnicodeEncodeError"
  by (simp add: sanitize_url_def py_def)

text \<open>
  Claim C6. For all URLs \<open>u\<close> and \<open>v\<close> (equal or not), the key of the counter of \<open>u\<close>
  and the cache key of \<open>v\<close> differ: \<^verbatim>\<open>sanitize_url\<close> never returns the string
  \<^verbatim>\<open>"count:" + u\<close>, and the bytes the two keys are sent as are never the same, so a
  counter and a cached page cannot share a key of the store.
\<close>

theorem C6_key_namespaces_disjoint:
  "sanitize_url v \<noteq> Inr (py ''count:'' @ u)
   \<and> set_option (cache_key v) \<inter> set_option (count_key u) = {}"
proof
  show "sanitize_url v \<noteq> Inr (py ''count:'' @ u)"
    using count_neq_hexdigest [of u] by (cases "utf8_encode v") (auto simp: sanitize_url_def dest: sym)
  show "set_option (cache_key v) \<inter> set_option (count_key u) = {}"
    using keys_disjoint [of u _ v] by (cases "cache_key v"; cases "count_key u") auto
qed

section \<open>\<^verbatim>\<open>wrapper\<close>: the three steps\<close>

lemma string2ll_range: "string2ll s = Some v \<Longrightarrow> - (2 ^ 63) \<le> v \<and> v < 2 ^ 63"
  by (auto simp: string2ll_def Let_def split: if_splits list.splits)

lemma counter_range: "counter db url = Some n \<Longrightarrow> - (2 ^ 63) \<le> n \<and> n < 2 ^ 63"
  by (auto simp: counter_def dest: string2ll_range split: option.splits)

lemma counter_encodable: "counter db url = Some n \<Longrightarrow> \<exists>ck. count_key url = Some ck"
  by (auto simp: counter_def split: option.splits)

lemma redis_incr_ok:
  assumes "counter db url = Some n" and "n < 2 ^ 63 - 1"
  shows "(redis_incr db (py ''count:'' @ url) :: 'e error + int \<times> store) = Inr (n + 1, after_incr db url)"
    and "counter (after_incr db url) url = Some (n + 1)"
    and "count_key url \<noteq> Some k \<Longrightarrow> after_incr db url k = db k"
proof -
  obtain ck where ck: "count_key url = Some ck" using assms(1) counter_encodable by blast
  have r: "string2ll (ll2string (n + 1)) = Some (n + 1)"
    using counter_range [OF assms(1)] assms(2) by (intro string2ll_ll2string) simp_all
  have n0: "db ck = None \<Longrightarrow> n = 0" using assms(1) ck by (simp add: counter_def)
  have n1: "db ck = Some e \<Longrightarrow> string2ll (val e) = Some n" for e using assms(1) ck by (simp add: counter_def)
  show "(redis_incr db (py ''count:'' @ url) :: 'e error + int \<times> store) = Inr (n + 1, after_incr db url)"
    using ck n0 n1 assms(2)
    by (cases "db ck") (auto simp: redis_incr_def after_incr_def count_key_def)
  show "counter (after_incr db url) url = Some (n + 1)"
    using ck n0 n1 assms(2) r
    by (cases "db ck") (auto simp: redis_incr_def after_incr_def count_key_def counter_def)
  show "count_key url \<noteq> Some k \<Longrightarrow> after_incr db url k = db k"
    using ck n0 n1 assms(2)
    by (cases "db ck") (auto simp: redis_incr_def after_incr_def count_key_def)
qed

lemma cached_after_incr:
  assumes "counter db url = Some n" and "n < 2 ^ 63 - 1"
  shows "cached (after_incr db url) url' = cached db url'"
proof (cases "cache_key url'")
  case None
  then show ?thesis by (simp add: cached_def)
next
  case (Some kk)
  then have "count_key url \<noteq> Some kk" using keys_disjoint [of url kk url'] by auto
  then show ?thesis using redis_incr_ok(3) [OF assms] Some by (simp add: cached_def)
qed


lemma count_key_url: "count_key url = Some ck \<Longrightarrow> \<exists>data. utf8_encode url = Some data"
  by (cases "utf8_encode url") (simp_all add: count_key_def utf8_encode_count)

lemma lookup_after_incr:
  assumes "counter (redis_client w) url = Some n" and "n < 2 ^ 63 - 1"
  obtains data where "utf8_encode url = Some data"
    and "(sanitize_url url :: 'e error + str) = Inr (hexdigest (md5 data))"
    and "cache_key url = Some (map of_nat (hexdigest (md5 data)))"
    and "(redis_get (after_incr (redis_client w) url) (hexdigest (md5 data)) :: 'e error + bytes option)
           = Inr (map_option val (cached (redis_client w) url))"
proof -
  obtain ck where "count_key url = Some ck" using assms(1) counter_encodable by blast
  then obtain data where d: "utf8_encode url = Some data" using count_key_url by blast
  have k: "cache_key url = Some (map of_nat (hexdigest (md5 data)))" using d by (simp add: cache_key_eq)
  have "cached (after_incr (redis_client w) url) url = cached (redis_client w) url"
    using assms by (rule cached_after_incr)
  then have "(redis_get (after_incr (redis_client w) url) (hexdigest (md5 data)) :: 'e error + bytes option)
           = Inr (map_option val (cached (redis_client w) url))"
    using k by (simp add: redis_get_def utf8_encode_hexdigest cached_def)
  then show thesis using that d k by (simp add: sanitize_url_def)
qed

lemma track_get_page_hit:
  fixes fn :: "('f, 'e) page_fn"
  assumes "counter (redis_client w) url = Some n" and "n < 2 ^ 63 - 1"
    and "cached (redis_client w) url = Some ent" and "val ent \<noteq> []"
  shows "track_get_page fn url w =
           ((case utf8_decode (val ent) of None \<Rightarrow> Inl UnicodeDecodeError | Some text \<Rightarrow> Inr text),
            w\<lparr>redis_client := after_incr (redis_client w) url\<rparr>)"
proof -
  obtain data where "(sanitize_url url :: 'e error + str) = Inr (hexdigest (md5 data))"
    and "(redis_get (after_incr (redis_client w) url) (hexdigest (md5 data)) :: 'e error + bytes option)
           = Inr (map_option val (cached (redis_client w) url))"
    using lookup_after_incr [OF assms(1,2)] by metis
  moreover have "(redis_incr (redis_client w) (py ''count:'' @ url) :: 'e error + int \<times> store)
                   = Inr (n + 1, after_incr (redis_client w) url)"
    using assms(1,2) by (rule redis_incr_ok)
  ultimately show ?thesis
    using assms(3,4) by (simp add: track_get_page_def split: option.splits)
qed

lemma track_get_page_miss:
  fixes fn :: "('f, 'e) page_fn"
  assumes "counter (redis_client w) url = Some n" and "n < 2 ^ 63 - 1"
    and "miss (redis_client w) url" and "utf8_encode url = Some data"
  shows "track_get_page fn url w =
           fetch_and_cache fn url (hexdigest (md5 data)) (w\<lparr>redis_client := after_incr (redis_client w) url\<rparr>)"
proof -
  obtain data' where d: "utf8_encode url = Some data'"
    and "(sanitize_url url :: 'e error + str) = Inr (hexdigest (md5 data'))"
    and "(redis_get (after_incr (redis_client w) url) (hexdigest (md5 data')) :: 'e error + bytes option)
           = Inr (map_option val (cached (redis_client w) url))"
    using lookup_after_incr [OF assms(1,2)] by metis
  moreover have "data' = data" using d assms(4) by simp
  moreover have "(redis_incr (redis_client w) (py ''count:'' @ url) :: 'e error + int \<times> store)
                   = Inr (n + 1, after_incr (redis_client w) url)"
    using assms(1,2) by (rule redis_incr_ok)
  ultimately show ?thesis
    using assms(3) by (simp add: track_get_page_def miss_def split: option.splits)
qed

lemma fetch_and_cache_raises:
  assumes "fst (fn url (fn_state w)) = Inl e"
  shows "fetch_and_cache fn url key w =
           (Inl (Raised e), w\<lparr>fn_state := snd (fn url (fn_state w)), fn_calls := fn_calls w @ [url]\<rparr>)"
  using assms by (cases "fn url (fn_state w)") (simp add: fetch_and_cache_def call_fn_def)

lemma fetch_and_cache_stores:
  assumes "fn url (fn_state w) = (Inr content, f')" and "utf8_encode content = Some page"
  shows "fetch_and_cache fn url (hexdigest d) w =
           (Inr content,
            w\<lparr>fn_state := f', fn_calls := fn_calls w @ [url],
              redis_client := (redis_client w)(map of_nat (hexdigest d) \<mapsto>
                                 \<lparr>val = page, ttl = Some CACHE_EXPIRATION\<rparr>)\<rparr>)"
  using assms
  by (simp add: fetch_and_cache_def call_fn_def redis_setex_def utf8_encode_hexdigest CACHE_EXPIRATION_def)

lemma fetch_and_cache_unencodable:
  assumes "fn url (fn_state w) = (Inr content, f')" and "utf8_encode content = None"
  shows "fetch_and_cache fn url (hexdigest d) w =
           (Inl UnicodeEncodeError, w\<lparr>fn_state := f', fn_calls := fn_calls w @ [url]\<rparr>)"
  using assms
  by (simp add: fetch_and_cache_def call_fn_def redis_setex_def utf8_encode_hexdigest)


lemma redis_incr_frame:
  "redis_incr db name = Inr (n, db') \<Longrightarrow> \<exists>k e. utf8_encode name = Some k \<and> db' = db(k \<mapsto> e)"
  by (auto simp: redis_incr_def split: option.splits if_splits)

lemma counter_fun_upd: "count_key url \<noteq> Some k \<Longrightarrow> counter (db(k \<mapsto> e)) url = counter db url"
  by (auto simp: counter_def split: option.splits)

lemma cache_key_not_count_key: "cache_key url' = Some kk \<Longrightarrow> count_key url \<noteq> Some kk"
  using keys_disjoint [of url kk url'] by auto

lemma track_get_page_raises:
  fixes fn :: "('f, 'e) page_fn"
  assumes "counter (redis_client w) url = Some n" and "n < 2 ^ 63 - 1"
    and "miss (redis_client w) url" and "fst (fn url (fn_state w)) = Inl e"
  shows "track_get_page fn url w =
           (Inl (Raised e),
            w\<lparr>redis_client := after_incr (redis_client w) url,
              fn_state := snd (fn url (fn_state w)), fn_calls := fn_calls w @ [url]\<rparr>)"
proof -
  obtain ck where "count_key url = Some ck" using assms(1) counter_encodable by blast
  then obtain data where d: "utf8_encode url = Some data" using count_key_url by blast
  show ?thesis
    using track_get_page_miss [OF assms(1,2,3) d, of fn] assms(4)
    by (simp add: fetch_and_cache_raises)
qed

lemma track_get_page_stores:
  fixes fn :: "('f, 'e) page_fn"
  assumes "counter (redis_client w) url = Some n" and "n < 2 ^ 63 - 1"
    and "miss (redis_client w) url" and "utf8_encode url = Some data"
    and "fn url (fn_state w) = (Inr content, f')" and "utf8_encode content = Some page"
  shows "track_get_page fn url w =
           (Inr content,
            w\<lparr>redis_client := (after_incr (redis_client w) url)
                 (map of_nat (hexdigest (md5 data)) \<mapsto> \<lparr>val = page, ttl = Some CACHE_EXPIRATION\<rparr>),
              fn_state := f', fn_calls := fn_calls w @ [url]\<rparr>)"
  using track_get_page_miss [OF assms(1,2,3,4), of fn] assms(5,6)
  by (simp add: fetch_and_cache_stores)

lemma track_get_page_unencodable:
  fixes fn :: "('f, 'e) page_fn"
  assumes "counter (redis_client w) url = Some n" and "n < 2 ^ 63 - 1"
    and "miss (redis_client w) url"
    and "fn url (fn_state w) = (Inr content, f')" and "utf8_encode content = None"
  shows "track_get_page fn url w =
           (Inl UnicodeEncodeError,
            w\<lparr>redis_client := after_incr (redis_client w) url,
              fn_state := f', fn_calls := fn_calls w @ [url]\<rparr>)"
proof -
  obtain ck where "count_key url = Some ck" using assms(1) counter_encodable by blast
  then obtain data where d: "utf8_encode url = Some data" using count_key_url by blast
  show ?thesis
    using track_get_page_miss [OF assms(1,2,3) d, of fn] assms(4,5)
    by (simp add: fetch_and_cache_unencodable)
qed

lemma stored_state:
  assumes "counter db url = Some n" and "n < 2 ^ 63 - 1" and "utf8_encode url = Some data"
  shows "counter ((after_incr db url)(map of_nat (hexdigest (md5 data)) \<mapsto> ent)) url = Some (n + 1)"
    and "cached ((after_incr db url)(map of_nat (hexdigest (md5 data)) \<mapsto> ent)) url = Some ent"
    and "count_key url \<noteq> Some k \<Longrightarrow> k \<noteq> map of_nat (hexdigest (md5 data)) \<Longrightarrow>
           ((after_incr db url)(map of_nat (hexdigest (md5 data)) \<mapsto> ent)) k = db k"
proof -
  have k: "cache_key url = Some (map of_nat (hexdigest (md5 data)))"
    using assms(3) by (simp add: cache_key_eq)
  then have "count_key url \<noteq> Some (map of_nat (hexdigest (md5 data)))"
    by (rule cache_key_not_count_key)
  then show "counter ((after_incr db url)(map of_nat (hexdigest (md5 data)) \<mapsto> ent)) url = Some (n + 1)"
    using redis_incr_ok(2) [OF assms(1,2)] by (simp add: counter_fun_upd)
  show "cached ((after_incr db url)(map of_nat (hexdigest (md5 data)) \<mapsto> ent)) url = Some ent"
    using k by (simp add: cached_def)
  show "count_key url \<noteq> Some k \<Longrightarrow> k \<noteq> map of_nat (hexdigest (md5 data)) \<Longrightarrow>
           ((after_incr db url)(map of_nat (hexdigest (md5 data)) \<mapsto> ent)) k = db k"
    using redis_incr_ok(3) [OF assms(1,2)] by simp
qed

lemma counter_after_call:
  fixes fn :: "('f, 'e) page_fn"
  assumes "counter (redis_client w) url = Some n" and "n < 2 ^ 63 - 1"
  shows "counter (redis_client (snd (track_get_page fn url w))) url = Some (n + 1)"
proof -
  note inc = redis_incr_ok(2) [OF assms]
  obtain ck where "count_key url = Some ck" using assms(1) counter_encodable by blast
  then obtain data where d: "utf8_encode url = Some data" using count_key_url by blast
  show ?thesis
  proof (cases "miss (redis_client w) url")
    case False
    then obtain ent where "cached (redis_client w) url = Some ent" "val ent \<noteq> []"
      by (auto simp: miss_def split: option.splits)
    then show ?thesis using track_get_page_hit [OF assms, of ent fn] inc by simp
  next
    case True
    obtain r f' where f: "fn url (fn_state w) = (r, f')" by (cases "fn url (fn_state w)") auto
    show ?thesis
    proof (cases r)
      case (Inl e)
      then show ?thesis using track_get_page_raises [OF assms True, of fn e] f inc by simp
    next
      case (Inr content)
      show ?thesis
      proof (cases "utf8_encode content")
        case None
        then show ?thesis
          using track_get_page_unencodable [OF assms True, of fn content f'] f Inr inc by simp
      next
        case (Some page)
        then show ?thesis
          using track_get_page_stores [OF assms True d, of fn content f' page] f Inr
            stored_state(1) [OF assms d]
          by simp
      qed
    qed
  qed
qed

lemma track_get_page_refused:
  fixes fn :: "('f, 'e) page_fn"
  assumes "counter (redis_client w) url = Some n" and "n = 2 ^ 63 - 1"
  shows "track_get_page fn url w = (Inl ResponseError, w)"
proof -
  obtain k where k: "utf8_encode (py ''count:'' @ url) = Some k"
    using assms(1) by (auto simp: counter_def count_key_def split: option.splits)
  then obtain e where "redis_client w k = Some e" and "string2ll (val e) = Some n"
    using assms by (auto simp: counter_def count_key_def split: option.splits)
  then show ?thesis using k assms(2) by (simp add: track_get_page_def redis_incr_def)
qed

section \<open>\<^verbatim>\<open>wrapper\<close>: the claims\<close>

lemma example_url_ascii: "utf8_encode example_url = Some (map of_nat example_url)"
  by (rule utf8_encode_ascii) (simp add: example_url_def py_def)

lemma example_cache_key: "cache_key example_url = Some example_key"
  by (simp add: cache_key_eq example_url_ascii example_key_eq)

lemma example_count_key:
  "count_key example_url = Some (map of_nat (py ''count:http://example.com''))"
  by (simp add: count_key_def example_url_def py_def)

lemma example_keys_distinct: "example_key \<noteq> map of_nat (py ''count:http://example.com'')"
  using cache_key_not_count_key [OF example_cache_key, of example_url] example_count_key by simp

lemma counter_empty: "count_key url = Some ck \<Longrightarrow> counter Map.empty url = Some 0"
  by (simp add: counter_def)

lemma cached_empty: "cached Map.empty url = None"
  by (simp add: cached_def split: option.splits)

lemma miss_empty: "miss Map.empty url"
  by (simp add: miss_def cached_empty)

lemma example_counter_fresh: "counter (redis_client (fresh pages)) example_url = Some 0"
  using counter_empty [OF example_count_key] by (simp add: fresh_def)

lemma example_miss_fresh: "miss (redis_client (fresh pages)) example_url"
  by (simp add: fresh_def miss_empty)

lemma empty_value_call:
  "track_get_page stub example_url
        \<lparr>redis_client = [example_key \<mapsto> \<lparr>val = [], ttl = Some 7\<rparr>],
         fn_state = [py ''world''], fn_calls = []\<rparr>
     = (Inr (py ''world''),
        \<lparr>redis_client =
           [example_key \<mapsto> \<lparr>val = [], ttl = Some 7\<rparr>,
            map of_nat (py ''count:http://example.com'') \<mapsto> \<lparr>val = map of_nat (py ''1''), ttl = None\<rparr>,
            example_key \<mapsto> \<lparr>val = map of_nat (py ''world''), ttl = Some 10\<rparr>],
         fn_state = [], fn_calls = [example_url]\<rparr>)"
proof -
  let ?db = "[example_key \<mapsto> \<lparr>val = [], ttl = Some 7\<rparr>]"
  let ?w = "\<lparr>redis_client = ?db, fn_state = [py ''world''], fn_calls = []\<rparr>"
  have ck: "count_key example_url \<noteq> Some example_key"
    using example_cache_key by (rule cache_key_not_count_key)
  have c0: "cached ?db example_url = Some \<lparr>val = [], ttl = Some 7\<rparr>"
    by (simp add: cached_def example_cache_key)
  have a: "counter (redis_client ?w) example_url = Some 0"
    using counter_empty [OF example_count_key] ck by (simp add: counter_fun_upd)
  have b: "(0 :: int) < 2 ^ 63 - 1" by simp
  have c: "miss (redis_client ?w) example_url" using c0 by (simp add: miss_def)
  have d: "stub example_url (fn_state ?w) = (Inr (py ''world''), [])" by (simp add: stub_def)
  have e: "utf8_encode (py ''world'') = Some (map of_nat (py ''world''))" by (simp add: py_def)
  have i: "after_incr ?db example_url
             = ?db(map of_nat (py ''count:http://example.com'') \<mapsto> \<lparr>val = map of_nat (py ''1''), ttl = None\<rparr>)"
    using example_keys_distinct example_count_key
    by (simp add: after_incr_def redis_incr_def count_key_def ll2string_def dec.simps py_def)
  have "track_get_page stub example_url ?w =
          (Inr (py ''world''),
           ?w\<lparr>redis_client := (after_incr (redis_client ?w) example_url)
                (map of_nat (hexdigest (md5 (map of_nat example_url)))
                   \<mapsto> \<lparr>val = map of_nat (py ''world''), ttl = Some CACHE_EXPIRATION\<rparr>),
             fn_state := [], fn_calls := fn_calls ?w @ [example_url]\<rparr>)"
    using a b c d e example_url_ascii
    by (simp add: track_get_page_stores [where n = 0 and data = "map of_nat example_url"
          and content = "py ''world''" and f' = "[]" and page = "map of_nat (py ''world'')"])
  then show ?thesis using i by (simp add: example_key_eq CACHE_EXPIRATION_def)
qed

lemma example_counter_page:
  "counter [example_key \<mapsto> ent] example_url = Some 0"
proof -
  have "count_key example_url \<noteq> Some example_key"
    using example_cache_key by (rule cache_key_not_count_key)
  then show ?thesis using counter_empty [OF example_count_key] by (simp add: counter_fun_upd)
qed

lemma example_cached_page: "cached [example_key \<mapsto> ent] example_url = Some ent"
  by (simp add: cached_def example_cache_key)

lemma invalid_utf8_call:
  "track_get_page stub example_url
        \<lparr>redis_client = [example_key \<mapsto> \<lparr>val = [0xFF], ttl = Some 7\<rparr>],
         fn_state = [py ''world''], fn_calls = []\<rparr>
     = (Inl UnicodeDecodeError,
        \<lparr>redis_client =
           [example_key \<mapsto> \<lparr>val = [0xFF], ttl = Some 7\<rparr>,
            map of_nat (py ''count:http://example.com'') \<mapsto> \<lparr>val = map of_nat (py ''1''), ttl = None\<rparr>],
         fn_state = [py ''world''], fn_calls = []\<rparr>)"
proof -
  let ?ent = "\<lparr>val = [0xFF], ttl = Some 7\<rparr>"
  let ?db = "[example_key \<mapsto> ?ent]"
  let ?w = "\<lparr>redis_client = ?db, fn_state = [py ''world''], fn_calls = []\<rparr> :: str list world"
  have a: "counter (redis_client ?w) example_url = Some 0" by (simp add: example_counter_page)
  have b: "(0 :: int) < 2 ^ 63 - 1" by simp
  have c: "cached (redis_client ?w) example_url = Some ?ent" by (simp add: example_cached_page)
  have d: "val ?ent \<noteq> []" by simp
  have i: "after_incr ?db example_url
             = ?db(map of_nat (py ''count:http://example.com'') \<mapsto> \<lparr>val = map of_nat (py ''1''), ttl = None\<rparr>)"
    using example_keys_distinct example_count_key
    by (simp add: after_incr_def redis_incr_def count_key_def ll2string_def dec.simps py_def)
  show ?thesis using track_get_page_hit [OF a b c d, of stub] i by simp
qed

lemma max_counter_value:
  "string2ll (map of_nat (py ''9223372036854775807'')) = Some 9223372036854775807"
  by (simp add: string2ll_def py_def is_digit_def Let_def)

lemma example_count_name:
  "utf8_encode (py ''count:'' @ example_url) = Some (map of_nat (py ''count:http://example.com''))"
  using example_count_key by (simp add: count_key_def)

lemma max_counter_call:
  "track_get_page stub example_url
        \<lparr>redis_client =
           [example_key \<mapsto> \<lparr>val = map of_nat (py ''hello''), ttl = Some 7\<rparr>,
            map of_nat (py ''count:http://example.com'')
              \<mapsto> \<lparr>val = map of_nat (py ''9223372036854775807''), ttl = None\<rparr>],
         fn_state = [py ''world''], fn_calls = []\<rparr>
     = (Inl ResponseError,
        \<lparr>redis_client =
           [example_key \<mapsto> \<lparr>val = map of_nat (py ''hello''), ttl = Some 7\<rparr>,
            map of_nat (py ''count:http://example.com'')
              \<mapsto> \<lparr>val = map of_nat (py ''9223372036854775807''), ttl = None\<rparr>],
         fn_state = [py ''world''], fn_calls = []\<rparr>)"
  using max_counter_value example_count_name
  by (simp add: track_get_page_def redis_incr_def)

lemma max_counter_alone_call:
  "track_get_page stub example_url
        \<lparr>redis_client = [map of_nat (py ''count:http://example.com'')
                           \<mapsto> \<lparr>val = map of_nat (py ''9223372036854775807''), ttl = None\<rparr>],
         fn_state = [py ''hello''], fn_calls = []\<rparr>
     = (Inl ResponseError,
        \<lparr>redis_client = [map of_nat (py ''count:http://example.com'')
                           \<mapsto> \<lparr>val = map of_nat (py ''9223372036854775807''), ttl = None\<rparr>],
         fn_state = [py ''hello''], fn_calls = []\<rparr>)"
  using max_counter_value example_count_name
  by (simp add: track_get_page_def redis_incr_def)

lemma not_a_number_call:
  "track_get_page stub example_url
        \<lparr>redis_client =
           [map of_nat (py ''count:http://example.com'') \<mapsto> \<lparr>val = map of_nat (py ''abc''), ttl = None\<rparr>],
         fn_state = [py ''hello''], fn_calls = []\<rparr>
     = (Inl ResponseError,
        \<lparr>redis_client =
           [map of_nat (py ''count:http://example.com'') \<mapsto> \<lparr>val = map of_nat (py ''abc''), ttl = None\<rparr>],
         fn_state = [py ''hello''], fn_calls = []\<rparr>)"
proof -
  have "string2ll (map of_nat (py ''abc'')) = None"
    by (simp add: string2ll_def py_def is_digit_def Let_def)
  then show ?thesis using example_count_name by (simp add: track_get_page_def redis_incr_def)
qed

lemma surrogate_url_call:
  "track_get_page stub [0xD800] (fresh pages) = (Inl UnicodeEncodeError, fresh pages)"
  by (simp add: track_get_page_def redis_incr_def py_count)

lemma surrogate_page_call:
  "fst (track_get_page stub example_url (fresh [[0xDC80]])) = Inl UnicodeEncodeError
   \<and> cached (redis_client (snd (track_get_page stub example_url (fresh [[0xDC80]])))) example_url = None
   \<and> fn_calls (snd (track_get_page stub example_url (fresh [[0xDC80]]))) = [example_url]"
proof -
  have a: "counter (redis_client (fresh [[0xDC80]])) example_url = Some 0"
    by (rule example_counter_fresh)
  have b: "(0 :: int) < 2 ^ 63 - 1" by simp
  have c: "miss (redis_client (fresh [[0xDC80]])) example_url" by (rule example_miss_fresh)
  have d: "stub example_url (fn_state (fresh [[0xDC80]])) = (Inr [0xDC80], [])"
    by (simp add: stub_def fresh_def)
  have e: "utf8_encode [0xDC80] = None" by simp
  have "cached (after_incr (redis_client (fresh [[0xDC80]])) example_url) example_url
          = cached (redis_client (fresh [[0xDC80]])) example_url"
    using a b by (rule cached_after_incr)
  moreover have "track_get_page stub example_url (fresh [[0xDC80]]) =
          (Inl UnicodeEncodeError,
           (fresh [[0xDC80]])\<lparr>redis_client := after_incr (redis_client (fresh [[0xDC80]])) example_url,
             fn_state := [], fn_calls := fn_calls (fresh [[0xDC80]]) @ [example_url]\<rparr>)"
    using a b c d e
    by (simp add: track_get_page_unencodable [where n = 0 and content = "[0xDC80]" and f' = "[]"])
  ultimately show ?thesis
    using c d by (simp add: fresh_def cached_empty)
qed

text \<open>
  Claim C3, as amended. Whenever the counter of a URL can be incremented (the key
  \<^verbatim>\<open>count:\<close> + URL can be sent, and it is missing or holds an integer below
  \<open>2\<^sup>6\<^sup>3 - 1\<close>), a call of the wrapper leaves the counter exactly 1 higher,
  whatever the rest of the call does: a hit, a miss, a fetch that raises, or a page that
  cannot be stored.
\<close>

theorem C3_counter_incremented:
  fixes fn :: "('f, 'e) page_fn"
  assumes "counter (redis_client w) url = Some n" and "n < 2 ^ 63 - 1"
  shows "counter (redis_client (snd (track_get_page fn url w))) url = Some (n + 1)"
  using assms by (rule counter_after_call)

theorem C3_counter_incremented_witness:
  "counter (redis_client (fresh [py ''hello''])) example_url = Some 0 \<and> (0 :: int) < 2 ^ 63 - 1
   \<and> counter (redis_client (snd (track_get_page stub example_url (fresh [py ''hello''])))) example_url
       = Some (0 + 1)"
proof -
  have a: "counter (redis_client (fresh [py ''hello''])) example_url = Some 0"
    by (rule example_counter_fresh)
  have b: "(0 :: int) < 2 ^ 63 - 1" by simp
  show ?thesis using a b C3_counter_incremented [OF a b, of stub] by simp
qed

text \<open>
  The claim as stated fails where the increment is refused: with the counter at
  \<open>2\<^sup>6\<^sup>3 - 1\<close>, or with a value that is no integer, the server answers with an
  error and the counter stays; for a URL with a surrogate the key cannot be sent at all.
  The call raises in all three cases.
\<close>

theorem C3_not_incremented_counterexample:
  "counter [map of_nat (py ''count:http://example.com'')
              \<mapsto> \<lparr>val = map of_nat (py ''9223372036854775807''), ttl = None\<rparr>] example_url
     = Some 9223372036854775807
   \<and> track_get_page stub example_url
        \<lparr>redis_client = [map of_nat (py ''count:http://example.com'')
                           \<mapsto> \<lparr>val = map of_nat (py ''9223372036854775807''), ttl = None\<rparr>],
         fn_state = [py ''hello''], fn_calls = []\<rparr>
     = (Inl ResponseError,
        \<lparr>redis_client = [map of_nat (py ''count:http://example.com'')
                           \<mapsto> \<lparr>val = map of_nat (py ''9223372036854775807''), ttl = None\<rparr>],
         fn_state = [py ''hello''], fn_calls = []\<rparr>)
   \<and> track_get_page stub example_url
        \<lparr>redis_client =
           [map of_nat (py ''count:http://example.com'') \<mapsto> \<lparr>val = map of_nat (py ''abc''), ttl = None\<rparr>],
         fn_state = [py ''hello''], fn_calls = []\<rparr>
     = (Inl ResponseError,
        \<lparr>redis_client =
           [map of_nat (py ''count:http://example.com'') \<mapsto> \<lparr>val = map of_nat (py ''abc''), ttl = None\<rparr>],
         fn_state = [py ''hello''], fn_calls = []\<rparr>)
   \<and> track_get_page stub [0xD800] (fresh [py ''hello''])
     = (Inl UnicodeEncodeError, fresh [py ''hello''])"
  using max_counter_value
  by (simp add: counter_def example_count_key max_counter_alone_call not_a_number_call
        surrogate_url_call)


text \<open>
  Claim C4. When the call is a miss (the increment has been answered and the lookup finds
  nothing), and the wrapped function raises \<open>e\<close>, the call raises that same \<open>e\<close>; the
  entry under the cache key is what it was, so is every key of the store other than the
  counter's, and the counter ends exactly 1 above its value before the call.
\<close>

theorem C4_fetch_failure_propagates:
  fixes fn :: "('f, 'e) page_fn"
  assumes "counter (redis_client w) url = Some n" and "n < 2 ^ 63 - 1"
    and "miss (redis_client w) url"
    and "fst (fn url (fn_state w)) = Inl e"
  shows "fst (track_get_page fn url w) = Inl (Raised e)
       \<and> cached (redis_client (snd (track_get_page fn url w))) url = cached (redis_client w) url
       \<and> (\<forall>k. count_key url \<noteq> Some k \<longrightarrow>
              redis_client (snd (track_get_page fn url w)) k = redis_client w k)
       \<and> counter (redis_client (snd (track_get_page fn url w))) url = Some (n + 1)"
proof -
  have "track_get_page fn url w =
          (Inl (Raised e),
           w\<lparr>redis_client := after_incr (redis_client w) url,
             fn_state := snd (fn url (fn_state w)), fn_calls := fn_calls w @ [url]\<rparr>)"
    using assms by (simp add: track_get_page_raises [where n = n and e = e])
  then show ?thesis
    using redis_incr_ok(2,3) [OF assms(1,2)] cached_after_incr [OF assms(1,2)] by simp
qed

theorem C4_fetch_failure_propagates_witness:
  "counter (redis_client (fresh [])) example_url = Some 0 \<and> (0 :: int) < 2 ^ 63 - 1
   \<and> miss (redis_client (fresh [])) example_url
   \<and> fst (stub example_url (fn_state (fresh []))) = Inl ''ConnectionError''
   \<and> fst (track_get_page stub example_url (fresh [])) = Inl (Raised ''ConnectionError'')
   \<and> cached (redis_client (snd (track_get_page stub example_url (fresh [])))) example_url
       = cached (redis_client (fresh [])) example_url
   \<and> count_key example_url \<noteq> Some example_key
   \<and> redis_client (snd (track_get_page stub example_url (fresh []))) example_key
       = redis_client (fresh []) example_key
   \<and> counter (redis_client (snd (track_get_page stub example_url (fresh [])))) example_url = Some (0 + 1)"
proof -
  have a: "counter (redis_client (fresh [])) example_url = Some 0" by (rule example_counter_fresh)
  have b: "(0 :: int) < 2 ^ 63 - 1" by simp
  have c: "miss (redis_client (fresh [])) example_url" by (rule example_miss_fresh)
  have d: "fst (stub example_url (fn_state (fresh []))) = Inl ''ConnectionError''"
    by (simp add: stub_def fresh_def)
  have k: "count_key example_url \<noteq> Some example_key"
    using example_cache_key by (rule cache_key_not_count_key)
  show ?thesis
    using a b c d k
      C4_fetch_failure_propagates [where fn = stub and w = "fresh []" and url = example_url
        and n = 0 and e = "''ConnectionError''"]
    by simp
qed

text \<open>
  Claim C5, as amended. On a miss (no entry under the cache key, or one with the empty
  value) of a call whose increment is answered, the wrapper invokes the wrapped function
  with the URL, once, whatever that function does; and when the function returns a page
  that has a UTF-8 encoding, the wrapper stores that encoding under the cache key with
  \<open>CACHE_EXPIRATION\<close> seconds to live (10, the same constant for every URL; the store
  counts them down), and returns the page.
\<close>

theorem C5_miss_fetches_and_stores:
  fixes fn :: "('f, 'e) page_fn"
  assumes "counter (redis_client w) url = Some n" and "n < 2 ^ 63 - 1"
    and "miss (redis_client w) url"
  shows "fn_calls (snd (track_get_page fn url w)) = fn_calls w @ [url]
         \<and> fn_state (snd (track_get_page fn url w)) = snd (fn url (fn_state w))
         \<and> (fst (fn url (fn_state w)) = Inr content \<and> encodable content \<longrightarrow>
              fst (track_get_page fn url w) = Inr content
              \<and> (\<exists>page. utf8_encode content = Some page
                    \<and> cached (redis_client (snd (track_get_page fn url w))) url
                        = Some \<lparr>val = page, ttl = Some CACHE_EXPIRATION\<rparr>))
         \<and> CACHE_EXPIRATION = 10"
proof -
  obtain ck where "count_key url = Some ck" using assms(1) counter_encodable by blast
  then obtain data where d: "utf8_encode url = Some data" using count_key_url by blast
  obtain r f' where f: "fn url (fn_state w) = (r, f')" by (cases "fn url (fn_state w)") auto
  have invoked: "fn_calls (snd (track_get_page fn url w)) = fn_calls w @ [url]
                 \<and> fn_state (snd (track_get_page fn url w)) = snd (fn url (fn_state w))"
  proof (cases r)
    case (Inl e)
    then show ?thesis using track_get_page_raises [OF assms, of fn e] f by simp
  next
    case (Inr c)
    show ?thesis
    proof (cases "utf8_encode c")
      case None
      then show ?thesis using track_get_page_unencodable [OF assms, of fn c f'] f Inr by simp
    next
      case (Some page)
      then show ?thesis using track_get_page_stores [OF assms d, of fn c f' page] f Inr by simp
    qed
  qed
  have stored: "fst (track_get_page fn url w) = Inr content
                \<and> (\<exists>page. utf8_encode content = Some page
                      \<and> cached (redis_client (snd (track_get_page fn url w))) url
                          = Some \<lparr>val = page, ttl = Some CACHE_EXPIRATION\<rparr>)"
    if c: "fst (fn url (fn_state w)) = Inr content" and e: "encodable content"
  proof -
    have r: "fn url (fn_state w) = (Inr content, f')" using c f by simp
    obtain page where p: "utf8_encode content = Some page"
      using e utf8_encode_Some_iff [of content] by auto
    show ?thesis
      using track_get_page_stores [OF assms d, of fn content f' page] r p
        stored_state(2) [OF assms(1,2) d] by simp
  qed
  have "CACHE_EXPIRATION = 10" by (simp add: CACHE_EXPIRATION_def)
  then show ?thesis using invoked stored by blast
qed

theorem C5_miss_fetches_and_stores_witness:
  "counter (redis_client (fresh [py ''hello''])) example_url = Some 0 \<and> (0 :: int) < 2 ^ 63 - 1
   \<and> miss (redis_client (fresh [py ''hello''])) example_url
   \<and> fst (stub example_url (fn_state (fresh [py ''hello'']))) = Inr (py ''hello'')
   \<and> encodable (py ''hello'')
   \<and> fn_calls (snd (track_get_page stub example_url (fresh [py ''hello''])))
       = fn_calls (fresh [py ''hello'']) @ [example_url]
   \<and> fn_state (snd (track_get_page stub example_url (fresh [py ''hello''])))
       = snd (stub example_url (fn_state (fresh [py ''hello''])))
   \<and> fst (track_get_page stub example_url (fresh [py ''hello''])) = Inr (py ''hello'')
   \<and> (\<exists>page. utf8_encode (py ''hello'') = Some page
         \<and> cached (redis_client (snd (track_get_page stub example_url (fresh [py ''hello''])))) example_url
             = Some \<lparr>val = page, ttl = Some 10\<rparr>)"
proof -
  have a: "counter (redis_client (fresh [py ''hello''])) example_url = Some 0"
    by (rule example_counter_fresh)
  have b: "(0 :: int) < 2 ^ 63 - 1" by simp
  have c: "miss (redis_client (fresh [py ''hello''])) example_url" by (rule example_miss_fresh)
  have d: "fst (stub example_url (fn_state (fresh [py ''hello'']))) = Inr (py ''hello'')"
    by (simp add: stub_def fresh_def)
  have e: "encodable (py ''hello'')" by (simp add: encodable_def py_def)
  show ?thesis
    using a b c d e
      C5_miss_fetches_and_stores [where fn = stub and w = "fresh [py ''hello'']"
        and url = example_url and n = 0 and content = "py ''hello''"]
    by (simp add: CACHE_EXPIRATION_def)
qed

text \<open>
  The claim as stated fails in two ways. A page with a lone surrogate cannot be encoded by
  the client: the call raises UnicodeEncodeError, nothing is stored and the page is not
  returned. And a miss whose increment is refused (the counter holds \<open>2\<^sup>6\<^sup>3 - 1\<close>) raises
  before the lookup: the wrapped function is not invoked and nothing is stored, although
  no entry is cached and the function has an encodable page at hand.
\<close>

theorem C5_miss_without_store_counterexample:
  "miss (redis_client (fresh [[0xDC80]])) example_url
   \<and> stub example_url (fn_state (fresh [[0xDC80]])) = (Inr [0xDC80], [])
   \<and> fst (track_get_page stub example_url (fresh [[0xDC80]])) = Inl UnicodeEncodeError
   \<and> cached (redis_client (snd (track_get_page stub example_url (fresh [[0xDC80]])))) example_url = None
   \<and> miss (redis_client full_counter) example_url
   \<and> stub example_url (fn_state full_counter) = (Inr (py ''hello''), [])
   \<and> encodable (py ''hello'')
   \<and> fst (track_get_page stub example_url full_counter) = Inl ResponseError
   \<and> fn_calls full_counter = []
   \<and> fn_calls (snd (track_get_page stub example_url full_counter)) = []
   \<and> cached (redis_client (snd (track_get_page stub example_url full_counter))) example_url = None"
proof -
  have m: "cached (redis_client full_counter) example_url = None"
    using example_keys_distinct by (simp add: full_counter_def cached_def example_cache_key)
  have "track_get_page stub example_url full_counter = (Inl ResponseError, full_counter)"
    using max_counter_alone_call by (simp add: full_counter_def)
  moreover have "encodable (py ''hello'')" by (simp add: encodable_def py_def)
  moreover have "stub example_url (fn_state full_counter) = (Inr (py ''hello''), [])"
    by (simp add: stub_def full_counter_def)
  moreover have "fn_calls full_counter = []" by (simp add: full_counter_def)
  moreover have "stub example_url (fn_state (fresh [[0xDC80]])) = (Inr [0xDC80], [])"
    by (simp add: stub_def fresh_def)
  ultimately show ?thesis
    using m example_miss_fresh [of "[[0xDC80]]"] surrogate_page_call by (simp add: miss_def)
qed


lemma hit_world_counter: "counter (redis_client hit_world) example_url = Some 1"
  using example_keys_distinct
  by (simp add: hit_world_def counter_def example_count_key string2ll_def py_def is_digit_def Let_def)

lemma hit_world_cached:
  "cached (redis_client hit_world) example_url = Some \<lparr>val = map of_nat (py ''hello''), ttl = Some 7\<rparr>"
  by (simp add: hit_world_def cached_def example_cache_key)

lemma decode_hello: "utf8_decode (map of_nat (py ''hello'')) = Some (py ''hello'')"
  by (simp add: py_def)

text \<open>
  Claim C8, as amended. When the cache key holds a non-empty value (what the wrapper
  takes for a hit), the call leaves the entry under the cache key as it was, value and
  time to live, and so it leaves every key of the store other than the counter's. This
  holds also when the increment is refused: then the call writes nothing at all.
\<close>

theorem C8_hit_writes_only_counter:
  fixes fn :: "('f, 'e) page_fn"
  assumes "cached (redis_client w) url = Some ent" and "val ent \<noteq> []"
  shows "cached (redis_client (snd (track_get_page fn url w))) url = Some ent
       \<and> (\<forall>k. count_key url \<noteq> Some k \<longrightarrow>
              redis_client (snd (track_get_page fn url w)) k = redis_client w k)"
proof (cases "redis_incr (redis_client w) (py ''count:'' @ url) :: 'e error + int \<times> store")
  case (Inl e)
  then show ?thesis using assms(1) by (simp add: track_get_page_def)
next
  case (Inr r)
  obtain n db' where r: "r = (n, db')" by (cases r) auto
  obtain ck e where ck: "count_key url = Some ck" and db': "db' = (redis_client w)(ck \<mapsto> e)"
    using redis_incr_frame [of "redis_client w" "py ''count:'' @ url" n db'] Inr r
    by (auto simp: count_key_def)
  obtain data where d: "utf8_encode url = Some data" using ck count_key_url by blast
  have k: "cache_key url = Some (map of_nat (hexdigest (md5 data)))"
    using d by (simp add: cache_key_eq)
  then have ne: "ck \<noteq> map of_nat (hexdigest (md5 data))"
    using cache_key_not_count_key [of url "map of_nat (hexdigest (md5 data))" url] ck by auto
  have c: "redis_client w (map of_nat (hexdigest (md5 data))) = Some ent"
    using assms(1) k by (simp add: cached_def)
  have "track_get_page fn url w =
          ((case utf8_decode (val ent) of None \<Rightarrow> Inl UnicodeDecodeError | Some text \<Rightarrow> Inr text),
           w\<lparr>redis_client := db'\<rparr>)"
    using Inr r d c ne assms(2)
    by (simp add: track_get_page_def sanitize_url_def redis_get_def utf8_encode_hexdigest db'
          split: option.splits)
  then show ?thesis using ck ne c k by (auto simp: db' cached_def)
qed

theorem C8_hit_writes_only_counter_witness:
  "cached (redis_client hit_world) example_url = Some \<lparr>val = map of_nat (py ''hello''), ttl = Some 7\<rparr>
   \<and> val \<lparr>val = map of_nat (py ''hello''), ttl = Some 7\<rparr> \<noteq> []
   \<and> cached (redis_client (snd (track_get_page stub example_url hit_world))) example_url
       = Some \<lparr>val = map of_nat (py ''hello''), ttl = Some 7\<rparr>
   \<and> count_key example_url \<noteq> Some (map of_nat (py ''count:http://example.org''))
   \<and> redis_client (snd (track_get_page stub example_url hit_world)) (map of_nat (py ''count:http://example.org''))
       = redis_client hit_world (map of_nat (py ''count:http://example.org''))"
proof -
  have c: "cached (redis_client hit_world) example_url
             = Some \<lparr>val = map of_nat (py ''hello''), ttl = Some 7\<rparr>" by (rule hit_world_cached)
  have d: "val \<lparr>val = map of_nat (py ''hello''), ttl = Some 7\<rparr> \<noteq> []" by (simp add: py_def)
  have k: "count_key example_url \<noteq> Some (map of_nat (py ''count:http://example.org''))"
    by (simp add: example_count_key py_def)
  show ?thesis using c d k C8_hit_writes_only_counter [OF c d, of stub] by simp
qed

text \<open>
  The claim as stated fails when the value under the cache key is empty: the entry is
  overwritten with the page that is fetched, and its time to live starts again.
\<close>

theorem C8_empty_value_overwritten_counterexample:
  "cached [example_key \<mapsto> \<lparr>val = [], ttl = Some 7\<rparr>] example_url = Some \<lparr>val = [], ttl = Some 7\<rparr>
   \<and> cached (redis_client (snd (track_get_page stub example_url
        \<lparr>redis_client = [example_key \<mapsto> \<lparr>val = [], ttl = Some 7\<rparr>],
         fn_state = [py ''world''], fn_calls = []\<rparr>))) example_url
       = Some \<lparr>val = map of_nat (py ''world''), ttl = Some 10\<rparr>"
  by (simp add: empty_value_call cached_def example_cache_key)

text \<open>
  Claim C1, as amended. When the counter can be incremented and the store holds a
  non-empty value under the cache key, the wrapper does not invoke the wrapped function
  and returns the stored value decoded as UTF-8 (it raises UnicodeDecodeError when the
  value is not valid UTF-8).
\<close>

theorem C1_hit_returns_cached:
  fixes fn :: "('f, 'e) page_fn"
  assumes "counter (redis_client w) url = Some n" and "n < 2 ^ 63 - 1"
    and "cached (redis_client w) url = Some ent" and "val ent \<noteq> []"
  shows "fst (track_get_page fn url w)
           = (case utf8_decode (val ent) of None \<Rightarrow> Inl UnicodeDecodeError | Some text \<Rightarrow> Inr text)
       \<and> fn_calls (snd (track_get_page fn url w)) = fn_calls w
       \<and> fn_state (snd (track_get_page fn url w)) = fn_state w"
  using track_get_page_hit [OF assms, of fn] by simp

theorem C1_hit_returns_cached_witness:
  "counter (redis_client hit_world) example_url = Some 1 \<and> (1 :: int) < 2 ^ 63 - 1
   \<and> cached (redis_client hit_world) example_url = Some \<lparr>val = map of_nat (py ''hello''), ttl = Some 7\<rparr>
   \<and> val \<lparr>val = map of_nat (py ''hello''), ttl = Some 7\<rparr> \<noteq> []
   \<and> fst (track_get_page stub example_url hit_world) = Inr (py ''hello'')
   \<and> fn_calls (snd (track_get_page stub example_url hit_world)) = fn_calls hit_world
   \<and> fn_state (snd (track_get_page stub example_url hit_world)) = fn_state hit_world"
proof -
  have a: "counter (redis_client hit_world) example_url = Some 1" by (rule hit_world_counter)
  have b: "(1 :: int) < 2 ^ 63 - 1" by simp
  have c: "cached (redis_client hit_world) example_url
             = Some \<lparr>val = map of_nat (py ''hello''), ttl = Some 7\<rparr>" by (rule hit_world_cached)
  have d: "val \<lparr>val = map of_nat (py ''hello''), ttl = Some 7\<rparr> \<noteq> []" by (simp add: py_def)
  show ?thesis using a b c d C1_hit_returns_cached [OF a b c d, of stub] decode_hello by simp
qed

text \<open>
  The claim as stated fails in three states that hold a value under the cache key: when
  the value is empty the wrapper takes it for a miss and invokes the wrapped function;
  when the value is not valid UTF-8 the call raises UnicodeDecodeError; when the counter
  is at \<open>2\<^sup>6\<^sup>3 - 1\<close> the call raises before the lookup.
\<close>

theorem C1_empty_value_counterexample:
  "cached [example_key \<mapsto> \<lparr>val = [], ttl = Some 7\<rparr>] example_url = Some \<lparr>val = [], ttl = Some 7\<rparr>
   \<and> fst (track_get_page stub example_url
        \<lparr>redis_client = [example_key \<mapsto> \<lparr>val = [], ttl = Some 7\<rparr>],
         fn_state = [py ''world''], fn_calls = []\<rparr>) = Inr (py ''world'')
   \<and> fn_calls (snd (track_get_page stub example_url
        \<lparr>redis_client = [example_key \<mapsto> \<lparr>val = [], ttl = Some 7\<rparr>],
         fn_state = [py ''world''], fn_calls = []\<rparr>)) = [example_url]
   \<and> cached [example_key \<mapsto> \<lparr>val = [0xFF], ttl = Some 7\<rparr>] example_url
       = Some \<lparr>val = [0xFF], ttl = Some 7\<rparr>
   \<and> fst (track_get_page stub example_url
        \<lparr>redis_client = [example_key \<mapsto> \<lparr>val = [0xFF], ttl = Some 7\<rparr>],
         fn_state = [py ''world''], fn_calls = []\<rparr>) = Inl UnicodeDecodeError
   \<and> cached [example_key \<mapsto> \<lparr>val = map of_nat (py ''hello''), ttl = Some 7\<rparr>,
              map of_nat (py ''count:http://example.com'')
                \<mapsto> \<lparr>val = map of_nat (py ''9223372036854775807''), ttl = None\<rparr>] example_url
       = Some \<lparr>val = map of_nat (py ''hello''), ttl = Some 7\<rparr>
   \<and> fst (track_get_page stub example_url
        \<lparr>redis_client =
           [example_key \<mapsto> \<lparr>val = map of_nat (py ''hello''), ttl = Some 7\<rparr>,
            map of_nat (py ''count:http://example.com'')
              \<mapsto> \<lparr>val = map of_nat (py ''9223372036854775807''), ttl = None\<rparr>],
         fn_state = [py ''world''], fn_calls = []\<rparr>) = Inl ResponseError"
proof -
  have "cached [example_key \<mapsto> \<lparr>val = map of_nat (py ''hello''), ttl = Some 7\<rparr>,
              map of_nat (py ''count:http://example.com'')
                \<mapsto> \<lparr>val = map of_nat (py ''9223372036854775807''), ttl = None\<rparr>] example_url
       = Some \<lparr>val = map of_nat (py ''hello''), ttl = Some 7\<rparr>"
    using example_keys_distinct by (simp add: cached_def example_cache_key)
  then show ?thesis
    by (simp add: example_cached_page empty_value_call invalid_utf8_call max_counter_call)
qed


lemma encode_nonempty: "utf8_encode s = Some page \<Longrightarrow> s \<noteq> [] \<Longrightarrow> page \<noteq> []"
  using utf8_encode_Nil_iff [of s] by auto

lemma track_get_page_hit_text:
  fixes fn :: "('f, 'e) page_fn"
  assumes "counter (redis_client w) url = Some n" and "n < 2 ^ 63 - 1"
    and "cached (redis_client w) url = Some ent" and "utf8_encode s = Some (val ent)" and "s \<noteq> []"
  shows "track_get_page fn url w = (Inr s, w\<lparr>redis_client := after_incr (redis_client w) url\<rparr>)"
proof -
  have "val ent \<noteq> []" using assms(4,5) by (rule encode_nonempty)
  moreover have "utf8_decode (val ent) = Some s" using assms(4) by (rule utf8_roundtrip)
  ultimately show ?thesis using track_get_page_hit [OF assms(1,2,3), of fn] by simp
qed

text \<open>
  Claim C2, as amended. For a URL and a non-empty page that both have a UTF-8 encoding:
  starting from an empty store, two calls in a row return that page both times, and the
  wrapped function is invoked exactly once (whatever it would answer the second time).
\<close>

theorem C2_two_calls_one_fetch:
  fixes fn :: "('f, 'e) page_fn"
  assumes "encodable url" and "encodable content" and "content \<noteq> []"
    and "fn url f0 = (Inr content, f1)"
  shows "fst (track_get_page fn url \<lparr>redis_client = Map.empty, fn_state = f0, fn_calls = []\<rparr>)
           = Inr content
       \<and> fst (track_get_page fn url
                (snd (track_get_page fn url \<lparr>redis_client = Map.empty, fn_state = f0, fn_calls = []\<rparr>)))
           = Inr content
       \<and> fn_calls (snd (track_get_page fn url
                (snd (track_get_page fn url \<lparr>redis_client = Map.empty, fn_state = f0, fn_calls = []\<rparr>))))
           = [url]"
proof -
  let ?w0 = "\<lparr>redis_client = Map.empty, fn_state = f0, fn_calls = []\<rparr> :: 'f world"
  obtain data where d: "utf8_encode url = Some data"
    using assms(1) utf8_encode_Some_iff [of url] by auto
  obtain page where p: "utf8_encode content = Some page"
    using assms(2) utf8_encode_Some_iff [of content] by auto
  have "count_key url = Some ([99, 111, 117, 110, 116, 58] @ data)"
    using d by (simp add: count_key_def utf8_encode_count)
  then have a: "counter (redis_client ?w0) url = Some 0" using counter_empty by simp
  have b: "(0 :: int) < 2 ^ 63 - 1" by simp
  have c: "miss (redis_client ?w0) url" by (simp add: miss_empty)
  let ?ent = "\<lparr>val = page, ttl = Some CACHE_EXPIRATION\<rparr>"
  let ?db1 = "(after_incr Map.empty url)(map of_nat (hexdigest (md5 data)) \<mapsto> ?ent)"
  let ?w1 = "\<lparr>redis_client = ?db1, fn_state = f1, fn_calls = [url]\<rparr> :: 'f world"
  have first: "track_get_page fn url ?w0 = (Inr content, ?w1)"
    using a b c d p assms(4)
    by (simp add: track_get_page_stores [where n = 0 and data = data and content = content
          and f' = f1 and page = page])
  have a1: "counter (redis_client ?w1) url = Some (0 + 1)"
    using stored_state(1) [of Map.empty url 0 data ?ent] a b d by simp
  have c1: "cached (redis_client ?w1) url = Some ?ent"
    using stored_state(2) [of Map.empty url 0 data ?ent] a b d by simp
  have "track_get_page fn url ?w1 = (Inr content, ?w1\<lparr>redis_client := after_incr (redis_client ?w1) url\<rparr>)"
    using a1 c1 p assms(3)
    by (intro track_get_page_hit_text [where n = "0 + 1" and ent = ?ent]) simp_all
  then show ?thesis using first by simp
qed

theorem C2_two_calls_one_fetch_witness:
  "encodable example_url \<and> encodable (py ''hello'') \<and> py ''hello'' \<noteq> []
   \<and> stub example_url [py ''hello'', py ''world''] = (Inr (py ''hello''), [py ''world''])
   \<and> fst (track_get_page stub example_url (fresh [py ''hello'', py ''world''])) = Inr (py ''hello'')
   \<and> fst (track_get_page stub example_url
            (snd (track_get_page stub example_url (fresh [py ''hello'', py ''world''])))) = Inr (py ''hello'')
   \<and> fn_calls (snd (track_get_page stub example_url
            (snd (track_get_page stub example_url (fresh [py ''hello'', py ''world''])))))
       = [example_url]"
proof -
  have a: "encodable example_url" by (simp add: encodable_def example_url_def py_def)
  have b: "encodable (py ''hello'')" by (simp add: encodable_def py_def)
  have c: "py ''hello'' \<noteq> []" by (simp add: py_def)
  have d: "stub example_url [py ''hello'', py ''world''] = (Inr (py ''hello''), [py ''world''])"
    by (simp add: stub_def)
  show ?thesis
    using a b c d
      C2_two_calls_one_fetch [where fn = stub and url = example_url and content = "py ''hello''"
        and ?f0.0 = "[py ''hello'', py ''world'']" and ?f1.0 = "[py ''world'']"]
    by (simp add: fresh_def)
qed

text \<open>
  The claim as stated fails for the empty page: it is stored, and the second call takes
  the stored empty value for a miss and fetches again. It also fails for a page or a URL
  with a lone surrogate, where the first call raises.
\<close>

theorem C2_empty_page_counterexample:
  "stub example_url [[], []] = (Inr [], [[]])
   \<and> fst (track_get_page stub example_url (fresh [[], []])) = Inr []
   \<and> fst (track_get_page stub example_url (snd (track_get_page stub example_url (fresh [[], []])))) = Inr []
   \<and> fn_calls (snd (track_get_page stub example_url (snd (track_get_page stub example_url (fresh [[], []])))))
       = [example_url, example_url]
   \<and> stub example_url [[0xDC80]] = (Inr [0xDC80], [])
   \<and> fst (track_get_page stub example_url (fresh [[0xDC80]])) = Inl UnicodeEncodeError
   \<and> fst (track_get_page stub [0xD800] (fresh [py ''hello''])) = Inl UnicodeEncodeError"
proof -
  let ?ent = "\<lparr>val = [], ttl = Some CACHE_EXPIRATION\<rparr>"
  let ?db1 = "(after_incr Map.empty example_url)(map of_nat (hexdigest (md5 (map of_nat example_url))) \<mapsto> ?ent)"
  let ?w1 = "\<lparr>redis_client = ?db1, fn_state = [[]], fn_calls = [example_url]\<rparr> :: str list world"
  have a: "counter (redis_client (fresh [[], []])) example_url = Some 0" by (rule example_counter_fresh)
  have a': "counter Map.empty example_url = Some 0" using a by (simp add: fresh_def)
  have b: "(0 :: int) < 2 ^ 63 - 1" by simp
  have c: "miss (redis_client (fresh [[], []])) example_url" by (rule example_miss_fresh)
  have d: "stub example_url (fn_state (fresh [[], []])) = (Inr [], [[]])" by (simp add: stub_def fresh_def)
  have first: "track_get_page stub example_url (fresh [[], []]) = (Inr [], ?w1)"
    using a b c d example_url_ascii
    by (simp add: track_get_page_stores [where n = 0 and data = "map of_nat example_url"
          and content = "[]" and f' = "[[]]" and page = "[]"] fresh_def)
  have a1: "counter (redis_client ?w1) example_url = Some (0 + 1)"
    using stored_state(1) [of Map.empty example_url 0 "map of_nat example_url" ?ent] a' b example_url_ascii
    by simp
  have b1: "(0 + 1 :: int) < 2 ^ 63 - 1" by simp
  have c1: "miss (redis_client ?w1) example_url"
    using stored_state(2) [of Map.empty example_url 0 "map of_nat example_url" ?ent] a' b example_url_ascii
    by (simp add: miss_def)
  have d1: "stub example_url (fn_state ?w1) = (Inr [], [])" by (simp add: stub_def)
  have second: "fst (track_get_page stub example_url ?w1) = Inr []
                \<and> fn_calls (snd (track_get_page stub example_url ?w1)) = [example_url, example_url]"
    using a1 b1 c1 d1 example_url_ascii
    by (simp add: track_get_page_stores [where n = "0 + 1" and data = "map of_nat example_url"
          and content = "[]" and f' = "[]" and page = "[]"])
  show ?thesis
    using first second surrogate_page_call by (simp add: stub_def surrogate_url_call)
qed

text \<open>
  Claim C10, as amended. After a miss on a URL has stored the non-empty page \<open>s\<close>, a later
  call for the same URL, in any state where the cache key still holds the value that was
  stored and the counter of the URL can still be incremented, returns \<open>s\<close>: encoding the
  page as UTF-8 and decoding the stored bytes gives the page back.
\<close>

theorem C10_cached_page_round_trip:
  fixes fn :: "('f, 'e) page_fn" and fn2 :: "('g, 'd) page_fn"
  assumes "counter (redis_client w) url = Some n" and "n < 2 ^ 63 - 1"
    and "miss (redis_client w) url"
    and "fn url (fn_state w) = (Inr s, f')" and "encodable s" and "s \<noteq> []"
    and "map_option val (cached (redis_client w2) url)
           = map_option val (cached (redis_client (snd (track_get_page fn url w))) url)"
    and "counter (redis_client w2) url = Some m" and "m < 2 ^ 63 - 1"
  shows "fst (track_get_page fn url w) = Inr s \<and> fst (track_get_page fn2 url w2) = Inr s"
proof -
  obtain ck where "count_key url = Some ck" using assms(1) counter_encodable by blast
  then obtain data where d: "utf8_encode url = Some data" using count_key_url by blast
  obtain page where p: "utf8_encode s = Some page"
    using assms(5) utf8_encode_Some_iff [of s] by auto
  have first: "track_get_page fn url w =
          (Inr s,
           w\<lparr>redis_client := (after_incr (redis_client w) url)
                (map of_nat (hexdigest (md5 data)) \<mapsto> \<lparr>val = page, ttl = Some CACHE_EXPIRATION\<rparr>),
             fn_state := f', fn_calls := fn_calls w @ [url]\<rparr>)"
    using assms(1,2,3,4) d p
    by (simp add: track_get_page_stores [where n = n and data = data and content = s
          and f' = f' and page = page])
  then have "map_option val (cached (redis_client w2) url) = Some page"
    using assms(7) stored_state(2) [OF assms(1,2) d] by simp
  then obtain ent where e: "cached (redis_client w2) url = Some ent" "val ent = page" by auto
  have "track_get_page fn2 url w2 = (Inr s, w2\<lparr>redis_client := after_incr (redis_client w2) url\<rparr>)"
    using assms(8,9) e p assms(6)
    by (intro track_get_page_hit_text [where n = m and ent = ent]) simp_all
  then show ?thesis using first by simp
qed


lemma example_first_call:
  "track_get_page stub example_url (fresh [py ''hello'', py ''world'']) =
     (Inr (py ''hello''),
      \<lparr>redis_client = (after_incr Map.empty example_url)
           (example_key \<mapsto> \<lparr>val = map of_nat (py ''hello''), ttl = Some CACHE_EXPIRATION\<rparr>),
       fn_state = [py ''world''], fn_calls = [example_url]\<rparr>)"
proof -
  have a: "counter (redis_client (fresh [py ''hello'', py ''world''])) example_url = Some 0"
    by (rule example_counter_fresh)
  have c: "miss (redis_client (fresh [py ''hello'', py ''world''])) example_url"
    by (rule example_miss_fresh)
  have d: "stub example_url (fn_state (fresh [py ''hello'', py ''world''])) = (Inr (py ''hello''), [py ''world''])"
    by (simp add: stub_def fresh_def)
  have e: "utf8_encode (py ''hello'') = Some (map of_nat (py ''hello''))" by (simp add: py_def)
  show ?thesis
    using a c d e example_url_ascii
    by (simp add: track_get_page_stores [where n = 0 and data = "map of_nat example_url"
          and content = "py ''hello''" and f' = "[py ''world'']" and page = "map of_nat (py ''hello'')"]
        fresh_def example_key_eq)
qed

theorem C10_cached_page_round_trip_witness:
  "counter (redis_client (fresh [py ''hello'', py ''world''])) example_url = Some 0
   \<and> (0 :: int) < 2 ^ 63 - 1
   \<and> miss (redis_client (fresh [py ''hello'', py ''world''])) example_url
   \<and> stub example_url (fn_state (fresh [py ''hello'', py ''world''])) = (Inr (py ''hello''), [py ''world''])
   \<and> encodable (py ''hello'') \<and> py ''hello'' \<noteq> []
   \<and> map_option val (cached (redis_client hit_world) example_url)
       = map_option val (cached (redis_client
           (snd (track_get_page stub example_url (fresh [py ''hello'', py ''world''])))) example_url)
   \<and> counter (redis_client hit_world) example_url = Some 1 \<and> (1 :: int) < 2 ^ 63 - 1
   \<and> fst (track_get_page stub example_url (fresh [py ''hello'', py ''world''])) = Inr (py ''hello'')
   \<and> fst (track_get_page stub example_url hit_world) = Inr (py ''hello'')"
proof -
  have a: "counter (redis_client (fresh [py ''hello'', py ''world''])) example_url = Some 0"
    by (rule example_counter_fresh)
  have b: "(0 :: int) < 2 ^ 63 - 1" by simp
  have c: "miss (redis_client (fresh [py ''hello'', py ''world''])) example_url"
    by (rule example_miss_fresh)
  have d: "stub example_url (fn_state (fresh [py ''hello'', py ''world''])) = (Inr (py ''hello''), [py ''world''])"
    by (simp add: stub_def fresh_def)
  have e: "encodable (py ''hello'')" by (simp add: encodable_def py_def)
  have f: "py ''hello'' \<noteq> []" by (simp add: py_def)
  have g: "map_option val (cached (redis_client hit_world) example_url)
       = map_option val (cached (redis_client
           (snd (track_get_page stub example_url (fresh [py ''hello'', py ''world''])))) example_url)"
  proof -
    have "cached (redis_client
           (snd (track_get_page stub example_url (fresh [py ''hello'', py ''world'']))))
            example_url = Some \<lparr>val = map of_nat (py ''hello''), ttl = Some CACHE_EXPIRATION\<rparr>"
      by (simp add: example_first_call cached_def example_cache_key)
    then show ?thesis by (simp add: hit_world_cached)
  qed
  have h: "counter (redis_client hit_world) example_url = Some 1" by (rule hit_world_counter)
  have i: "(1 :: int) < 2 ^ 63 - 1" by simp
  show ?thesis
    using a b c d e f g h i
      C10_cached_page_round_trip [where fn = stub and w = "fresh [py ''hello'', py ''world'']"
        and url = example_url and n = 0 and s = "py ''hello''" and f' = "[py ''world'']"
        and ?w2.0 = hit_world and m = 1 and ?fn2.0 = stub]
    by simp
qed

text \<open>
  The claim as stated fails when the later call's increment is refused. With the counter
  of the URL at \<open>2\<^sup>6\<^sup>3 - 2\<close>, the first call is a miss that stores the page \<^verbatim>\<open>hello\<close>
  and leaves the counter at \<open>2\<^sup>6\<^sup>3 - 1\<close>; the very next call, with the entry still
  present, raises ResponseError at \<^verbatim>\<open>INCR\<close> and returns nothing.
\<close>

theorem C10_counter_refused_counterexample:
  "miss (redis_client last_count) example_url
   \<and> stub example_url (fn_state last_count) = (Inr (py ''hello''), [py ''world''])
   \<and> py ''hello'' \<noteq> []
   \<and> fst (track_get_page stub example_url last_count) = Inr (py ''hello'')
   \<and> cached (redis_client (snd (track_get_page stub example_url last_count))) example_url
       = Some \<lparr>val = map of_nat (py ''hello''), ttl = Some 10\<rparr>
   \<and> fst (track_get_page stub example_url (snd (track_get_page stub example_url last_count)))
       = Inl ResponseError"
proof -
  have a: "counter (redis_client last_count) example_url = Some 9223372036854775806"
    by (simp add: last_count_def counter_def example_count_key string2ll_def py_def is_digit_def Let_def)
  have b: "(9223372036854775806 :: int) < 2 ^ 63 - 1" by simp
  have c: "miss (redis_client last_count) example_url"
    using example_keys_distinct by (simp add: last_count_def miss_def cached_def example_cache_key)
  have d: "stub example_url (fn_state last_count) = (Inr (py ''hello''), [py ''world''])"
    by (simp add: stub_def last_count_def)
  have e: "utf8_encode (py ''hello'') = Some (map of_nat (py ''hello''))" by (simp add: py_def)
  have f: "py ''hello'' \<noteq> []" by (simp add: py_def)
  let ?db = "(after_incr (redis_client last_count) example_url)
               (example_key \<mapsto> \<lparr>val = map of_nat (py ''hello''), ttl = Some CACHE_EXPIRATION\<rparr>)"
  have first: "track_get_page stub example_url last_count =
                 (Inr (py ''hello''),
                  last_count\<lparr>redis_client := ?db, fn_state := [py ''world''],
                    fn_calls := fn_calls last_count @ [example_url]\<rparr>)"
    using track_get_page_stores [OF a b c example_url_ascii, of stub "py ''hello''" "[py ''world'']"
            "map of_nat (py ''hello'')"] d e
    by (simp add: example_key_eq)
  have g: "counter ?db example_url = Some (9223372036854775806 + 1)"
    using stored_state(1) [OF a b example_url_ascii] by (simp add: example_key_eq)
  have h: "cached ?db example_url
             = Some \<lparr>val = map of_nat (py ''hello''), ttl = Some CACHE_EXPIRATION\<rparr>"
    using stored_state(2) [OF a b example_url_ascii] by (simp add: example_key_eq)
  have "fst (track_get_page stub example_url (snd (track_get_page stub example_url last_count)))
          = Inl ResponseError"
    using g by (simp add: first track_get_page_refused [where n = "9223372036854775806 + 1"])
  then show ?thesis using c d f h by (simp add: first CACHE_EXPIRATION_def)
qed

end
